theory Spec2Isabelle
  imports Complex_Main "HOL-Library.Sublist"
begin

section \<open>DailyCigs: the event store and the aggregation code\<close>

text \<open>
  A shallow embedding of \<^verbatim>\<open>utils/storage.ts\<close> and of the computations of the screens
  \<^verbatim>\<open>app/(tabs)/index.tsx\<close>, \<^verbatim>\<open>app/(tabs)/trends.tsx\<close> and \<^verbatim>\<open>app/(tabs)/costs.tsx\<close>.

  Conventions of the embedding.
  \<^item> An instant (a JavaScript \<^verbatim>\<open>Date\<close>, \<^verbatim>\<open>Date.now()\<close>) is an \<open>int\<close>: milliseconds since
    1970-01-01T00:00:00Z.
  \<^item> A text that the code only hands to a parser is represented by what the parser makes
    of it: the ISO timestamp of a log by \<open>Some\<close> instant, or \<open>None\<close> where \<^verbatim>\<open>parseISO\<close> and
    \<^verbatim>\<open>new Date(text)\<close> yield an Invalid Date; the stored JSON text of the log array by the
    array it encodes, or \<open>Malformed\<close> where \<^verbatim>\<open>JSON.parse\<close> throws; a stored number text by
    the number \<^verbatim>\<open>parseInt\<close> or \<^verbatim>\<open>parseFloat\<close> reads, or \<open>NaN\<close>.
  \<^item> A calendar day is the number of days since 1970-01-01. The text that
    \<^verbatim>\<open>format(d, 'yyyy-MM-dd')\<close> or \<^verbatim>\<open>toDateString()\<close> prints is represented by the calendar day
    it names.
  \<^item> The time zone of the device is a function from an instant to the offset, in
    milliseconds, of local time from UTC at that instant.
  \<^item> A promise is a sum: \<open>Inl\<close> a rejection, \<open>Inr\<close> the value it resolves to.
  \<^item> Counts, instants and day numbers are integers far below \<open>2\<^sup>5\<^sup>3\<close>, where JavaScript's
    arithmetic is exact: counts are \<open>nat\<close>, instants and days \<open>int\<close>.
  \<^item> Every other number is a double: a \<open>real\<close> that \<open>round_double\<close> returns. A division, a
    product or a sum of doubles is the exact result rounded by \<open>round_double\<close>, as IEEE 754
    has it. \<^verbatim>\<open>Infinity\<close> is not modelled: the cost is typed into a field of ten characters
    and no number the application computes comes near the end of the range.
\<close>

subsection \<open>Data\<close>

datatype error = StorageError | RangeError

datatype 'a number = NaN | Num 'a

record CigaretteLog =
  log_id :: string
  timestamp :: "int option"

datatype json_text = Malformed | Encoded "CigaretteLog list"

text \<open>The keys of AsyncStorage the application uses; \<open>None\<close> is an absent key (\<^verbatim>\<open>null\<close>).\<close>

record AsyncStorage =
  logs_item :: "json_text option"
  dailyGoal_item :: "int number option"
  cigaretteCost_item :: "real number option"
  currency_item :: "string option"
  hasSeenWelcome_item :: "string option"

text \<open>What the platform storage does during one operation of the store.\<close>

record io =
  getItem_rejects :: bool
  setItem_rejects :: bool

definition working :: io where
  "working = \<lparr>getItem_rejects = False, setItem_rejects = False\<rparr>"

definition DEFAULT_GOAL :: int where
  "DEFAULT_GOAL = 0"

definition DEFAULT_COST :: real where
  "DEFAULT_COST = 0"

subsection \<open>The event store\<close>

definition getItem :: "io \<Rightarrow> 'a \<Rightarrow> error + 'a" where
  "getItem env item = (if getItem_rejects env then Inl StorageError else Inr item)"

definition setItem_logs :: "io \<Rightarrow> json_text \<Rightarrow> AsyncStorage \<Rightarrow> (error + unit) \<times> AsyncStorage" where
  "setItem_logs env text st =
     (if setItem_rejects env then (Inl StorageError, st)
      else (Inr (), st\<lparr>logs_item := Some text\<rparr>))"

text \<open>\<^verbatim>\<open>saveLogs\<close>: the catch block logs and rethrows.\<close>

definition saveLogs :: "io \<Rightarrow> CigaretteLog list \<Rightarrow> AsyncStorage \<Rightarrow> (error + unit) \<times> AsyncStorage" where
  "saveLogs env logs st =
     (case setItem_logs env (Encoded logs) st of
        (Inl e, st') \<Rightarrow> (Inl e, st')
      | (Inr u, st') \<Rightarrow> (Inr u, st'))"

text \<open>
  \<^verbatim>\<open>getLogs\<close>: \<^verbatim>\<open>return logs ? JSON.parse(logs) : []\<close> inside a try whose catch returns
  \<^verbatim>\<open>[]\<close>, both for a rejected read and for a text that does not parse.
\<close>

definition getLogs :: "io \<Rightarrow> AsyncStorage \<Rightarrow> error + CigaretteLog list" where
  "getLogs env st =
     (case getItem env (logs_item st) of
        Inl e \<Rightarrow> Inr []
      | Inr None \<Rightarrow> Inr []
      | Inr (Some Malformed) \<Rightarrow> Inr []
      | Inr (Some (Encoded logs)) \<Rightarrow> Inr logs)"

text \<open>\<^verbatim>\<open>Date.now().toString()\<close>: the decimal numeral of the instant.\<close>

definition digit :: "nat \<Rightarrow> char" where
  "digit n = ''0123456789'' ! n"

fun decimal :: "nat \<Rightarrow> string" where
  "decimal n = (if n < 10 then [digit n] else decimal (n div 10) @ [digit (n mod 10)])"

declare decimal.simps [simp del]

definition Number_toString :: "int \<Rightarrow> string" where
  "Number_toString i = (if i < 0 then CHR ''-'' # decimal (nat (- i)) else decimal (nat i))"

text \<open>
  \<^verbatim>\<open>addLog\<close>: the entry is the argument or, without one, an entry made from the clock
  (\<^verbatim>\<open>new Date().toISOString()\<close> names the instant itself). It is appended to what
  \<^verbatim>\<open>getLogs\<close> returns and the whole array is written; a failed write is rethrown.
\<close>

definition addLog ::
  "io \<Rightarrow> int \<Rightarrow> CigaretteLog option \<Rightarrow> AsyncStorage \<Rightarrow> (error + CigaretteLog list) \<times> AsyncStorage" where
  "addLog env now entry st =
     (case getLogs env st of
        Inl e \<Rightarrow> (Inl e, st)
      | Inr logs \<Rightarrow>
          (let newLog = (case entry of
                           Some l \<Rightarrow> l
                         | None \<Rightarrow> \<lparr>log_id = Number_toString now, timestamp = Some now\<rparr>);
               updatedLogs = logs @ [newLog]
           in case saveLogs env updatedLogs st of
                (Inl e, st') \<Rightarrow> (Inl e, st')
              | (Inr u, st') \<Rightarrow> (Inr updatedLogs, st')))"

text \<open>\<^verbatim>\<open>removeLog\<close>: \<^verbatim>\<open>logs.filter(log => log.id !== id)\<close>, written back.\<close>

definition removeLog ::
  "io \<Rightarrow> string \<Rightarrow> AsyncStorage \<Rightarrow> (error + CigaretteLog list) \<times> AsyncStorage" where
  "removeLog env i st =
     (case getLogs env st of
        Inl e \<Rightarrow> (Inl e, st)
      | Inr logs \<Rightarrow>
          (let updatedLogs = filter (\<lambda>l. log_id l \<noteq> i) logs
           in case saveLogs env updatedLogs st of
                (Inl e, st') \<Rightarrow> (Inl e, st')
              | (Inr u, st') \<Rightarrow> (Inr updatedLogs, st')))"

text \<open>
  The preference getters. \<^verbatim>\<open>value ? parseInt(value, 10) || DEFAULT_GOAL : DEFAULT_GOAL\<close>:
  an absent text, a text without a number and the number 0 all give the default.
\<close>

definition getDailyGoal :: "io \<Rightarrow> AsyncStorage \<Rightarrow> error + int" where
  "getDailyGoal env st =
     (case getItem env (dailyGoal_item st) of
        Inl e \<Rightarrow> Inr DEFAULT_GOAL
      | Inr None \<Rightarrow> Inr DEFAULT_GOAL
      | Inr (Some NaN) \<Rightarrow> Inr DEFAULT_GOAL
      | Inr (Some (Num n)) \<Rightarrow> Inr (if n = 0 then DEFAULT_GOAL else n))"

definition getCigaretteCost :: "io \<Rightarrow> AsyncStorage \<Rightarrow> error + real" where
  "getCigaretteCost env st =
     (case getItem env (cigaretteCost_item st) of
        Inl e \<Rightarrow> Inr DEFAULT_COST
      | Inr None \<Rightarrow> Inr DEFAULT_COST
      | Inr (Some NaN) \<Rightarrow> Inr DEFAULT_COST
      | Inr (Some (Num c)) \<Rightarrow> Inr (if c = 0 then DEFAULT_COST else c))"

definition getCurrency :: "io \<Rightarrow> AsyncStorage \<Rightarrow> error + string option" where
  "getCurrency env st =
     (case getItem env (currency_item st) of
        Inl e \<Rightarrow> Inr None
      | Inr v \<Rightarrow> Inr v)"

definition hasSeenWelcome :: "io \<Rightarrow> AsyncStorage \<Rightarrow> error + bool" where
  "hasSeenWelcome env st =
     (case getItem env (hasSeenWelcome_item st) of
        Inl e \<Rightarrow> Inr False
      | Inr v \<Rightarrow> Inr (v = Some ''true''))"

subsection \<open>Dates\<close>

type_synonym timezone = "int \<Rightarrow> int"

definition MS_PER_DAY :: int where
  "MS_PER_DAY = 24 * 60 * 60 * 1000"

text \<open>The calendar day of an instant on the device's clock.\<close>

definition local_day :: "timezone \<Rightarrow> int \<Rightarrow> int" where
  "local_day tz t = (t + tz t) div MS_PER_DAY"

text \<open>
  \<^verbatim>\<open>format(d, 'yyyy-MM-dd')\<close> of date-fns prints the local calendar day and throws a
  RangeError for an Invalid Date.
\<close>

definition format_yyyy_MM_dd :: "timezone \<Rightarrow> int option \<Rightarrow> error + int" where
  "format_yyyy_MM_dd tz d =
     (case d of None \<Rightarrow> Inl RangeError | Some t \<Rightarrow> Inr (local_day tz t))"

text \<open>\<^verbatim>\<open>new Date('yyyy-MM-dd')\<close>: ECMAScript reads a date-only text as midnight UTC.\<close>

definition Date_of_dateKey :: "int \<Rightarrow> int" where
  "Date_of_dateKey dateKey = dateKey * MS_PER_DAY"

text \<open>\<^verbatim>\<open>toDateString()\<close> and \<^verbatim>\<open>getHours()\<close> read the local clock.\<close>

definition toDateString :: "timezone \<Rightarrow> int \<Rightarrow> int" where
  "toDateString tz t = local_day tz t"

definition getHours :: "timezone \<Rightarrow> int option \<Rightarrow> int number" where
  "getHours tz d =
     (case d of
        None \<Rightarrow> NaN
      | Some t \<Rightarrow> Num (((t + tz t) mod MS_PER_DAY) div (60 * 60 * 1000)))"

subsection \<open>Doubles\<close>

text \<open>
  A double is a multiple \<open>m * u\<close> of a power of two \<open>u\<close> with \<open>m\<close> below \<open>2\<^sup>5\<^sup>3\<close>; the least
  \<open>u\<close> is \<open>2\<^sup>-\<^sup>1\<^sup>0\<^sup>7\<^sup>4\<close> and the least double with a full mantissa is \<open>2\<^sup>-\<^sup>1\<^sup>0\<^sup>2\<^sup>2\<close>.
\<close>

definition MIN_ULP :: real where
  "MIN_ULP = 1 / 2 ^ 1074"

definition MIN_NORMAL :: real where
  "MIN_NORMAL = 1 / 2 ^ 1022"

text \<open>The nearest integer, the even one of two.\<close>

definition round_half_even :: "real \<Rightarrow> int" where
  "round_half_even y =
     (let f = \<lfloor>y\<rfloor>; r = y - of_int f
      in if r < 1 / 2 then f
         else if 1 / 2 < r then f + 1
         else if even f then f else f + 1)"

text \<open>
  Scaling by powers of two until the mantissa \<open>y\<close> lies between \<open>2\<^sup>5\<^sup>2\<close> and \<open>2\<^sup>5\<^sup>3\<close>, or the
  unit \<open>u\<close> has reached the least one; \<open>y * u\<close> stays what it was. The count of rounds
  left, 2200 at the start, is more than any double needs.
\<close>

fun normalise :: "nat \<Rightarrow> real \<Rightarrow> real \<Rightarrow> real \<times> real" where
  "normalise n y u =
     (if n = 0 then (y, u)
      else if 2 ^ 53 \<le> y then normalise (n - 1) (y / 2) (u * 2)
      else if y < 2 ^ 52 \<and> MIN_ULP < u then normalise (n - 1) (y * 2) (u / 2)
      else (y, u))"

declare normalise.simps [simp del]

text \<open>The double nearest to a real number, the one with the even mantissa of two.\<close>

definition round_double :: "real \<Rightarrow> real" where
  "round_double x =
     (if x = 0 then 0
      else (case normalise 2200 \<bar>x\<bar> 1 of
              (y, u) \<Rightarrow> sgn x * (of_int (round_half_even y) * u)))"

subsection \<open>\<^verbatim>\<open>getLogsByDay\<close> (utils/storage.ts)\<close>

text \<open>
  The object \<^verbatim>\<open>result\<close> is a list of key and value pairs in insertion order, the order in
  which \<^verbatim>\<open>Object.entries\<close> lists keys that are not array indices. An assignment to a
  key already there replaces its value in place.
\<close>

fun obj_set :: "('k \<times> 'v) list \<Rightarrow> 'k \<Rightarrow> 'v \<Rightarrow> ('k \<times> 'v) list" where
  "obj_set [] k v = [(k, v)]"
| "obj_set ((k', v') # ps) k v =
     (if k' = k then (k', v) # ps else (k', v') # obj_set ps k v)"

text \<open>
  The first loop: \<^verbatim>\<open>for (let i = 0; i < days; i++)\<close>, each round formatting
  \<^verbatim>\<open>today.getTime() - i * 24 * 60 * 60 * 1000\<close> and storing 0 under that key. The date
  formatted is an instant, so \<^verbatim>\<open>format\<close> does not throw here and the key is its local day.
\<close>

function initDays ::
  "timezone \<Rightarrow> int \<Rightarrow> int \<Rightarrow> int \<Rightarrow> (int \<times> nat) list \<Rightarrow> (int \<times> nat) list" where
  "initDays tz today days i result =
     (if i < days
      then initDays tz today days (i + 1)
             (obj_set result (local_day tz (today - i * MS_PER_DAY)) 0)
      else result)"
  by pat_completeness auto
termination
  by (relation "measure (\<lambda>(tz, today, days, i, result). nat (days - i))") auto

declare initDays.simps [simp del]

text \<open>
  The second loop, \<^verbatim>\<open>logs.forEach\<close>: \<^verbatim>\<open>format\<close> throws on an invalid timestamp, which ends
  the loop; \<^verbatim>\<open>result[dateKey]++\<close> runs only under \<^verbatim>\<open>result.hasOwnProperty(dateKey)\<close>.
\<close>

fun countLogs ::
  "timezone \<Rightarrow> CigaretteLog list \<Rightarrow> (int \<times> nat) list \<Rightarrow> error + (int \<times> nat) list" where
  "countLogs tz [] result = Inr result"
| "countLogs tz (l # logs) result =
     (case format_yyyy_MM_dd tz (timestamp l) of
        Inl e \<Rightarrow> Inl e
      | Inr dateKey \<Rightarrow>
          (case map_of result dateKey of
             Some c \<Rightarrow> countLogs tz logs (obj_set result dateKey (c + 1))
           | None \<Rightarrow> countLogs tz logs result))"

record DailyData =
  date :: int
  count :: nat

text \<open>The body of the try block, and the function with its catch, which returns \<^verbatim>\<open>[]\<close>.\<close>

definition getLogsByDay_try ::
  "timezone \<Rightarrow> int \<Rightarrow> io \<Rightarrow> AsyncStorage \<Rightarrow> int \<Rightarrow> error + DailyData list" where
  "getLogsByDay_try tz today env st days =
     (case getLogs env st of
        Inl e \<Rightarrow> Inl e
      | Inr logs \<Rightarrow>
          (case countLogs tz logs (initDays tz today days 0 []) of
             Inl e \<Rightarrow> Inl e
           | Inr result \<Rightarrow>
               Inr (sort_key date
                     (map (\<lambda>(dateKey, c). \<lparr>date = Date_of_dateKey dateKey, count = c\<rparr>) result))))"

definition getLogsByDay ::
  "timezone \<Rightarrow> int \<Rightarrow> io \<Rightarrow> AsyncStorage \<Rightarrow> int \<Rightarrow> error + DailyData list" where
  "getLogsByDay tz today env st days =
     (case getLogsByDay_try tz today env st days of
        Inl e \<Rightarrow> Inr []
      | Inr buckets \<Rightarrow> Inr buckets)"

subsection \<open>The trends screen (app/(tabs)/trends.tsx, \<^verbatim>\<open>loadData\<close>)\<close>

datatype timeRange = Week | Month

text \<open>
  \<^verbatim>\<open>allDays.map(day => ...)\<close>: each day of the chart takes the count of the first bucket
  with the same \<^verbatim>\<open>toDateString()\<close>, or 0.
\<close>

definition filledData :: "timezone \<Rightarrow> int list \<Rightarrow> DailyData list \<Rightarrow> DailyData list" where
  "filledData tz allDays logsByDay =
     map (\<lambda>day.
            (let existing = find (\<lambda>d. toDateString tz (date d) = toDateString tz day) logsByDay
             in \<lparr>date = day, count = (case existing of Some e \<Rightarrow> count e | None \<Rightarrow> 0)\<rparr>))
         allDays"

text \<open>
  \<^verbatim>\<open>x.toFixed(1)\<close>, as the number its decimal text denotes: \<^verbatim>\<open>toFixed\<close> prints the sign and
  then, below \<open>10\<^sup>2\<^sup>1\<close>, the integer \<open>n\<close> for which \<open>n / 10\<close> is nearest to the double \<open>x\<close>, the
  larger one of two, with a point before its last digit.
\<close>

definition toFixed1 :: "real \<Rightarrow> real" where
  "toFixed1 x =
     (let a = \<bar>x\<bar>;
          m = (if a \<ge> 10 ^ 21 then a else of_int \<lfloor>a * 10 + 1 / 2\<rfloor> / 10)
      in if x < 0 then - m else m)"

record trends_stats =
  dailyAverage :: real
  total :: nat
  changeFromLastPeriod :: real

text \<open>
  The statistics of the period:
  \<^verbatim>\<open>total = periodData.reduce((sum, day) => sum + day.count, 0)\<close> and
  \<^verbatim>\<open>dailyAverage = periodData.length > 0 ? (total / periodData.length).toFixed(1) : 0\<close>,
  stored as \<^verbatim>\<open>Number(dailyAverage)\<close>: the quotient is a double, \<^verbatim>\<open>toFixed\<close> prints it and
  \<^verbatim>\<open>Number\<close> reads the text back as the nearest double.
\<close>

definition aggregate :: "DailyData list \<Rightarrow> trends_stats" where
  "aggregate periodData =
     (let total = foldl (\<lambda>sum day. sum + count day) 0 periodData;
          dailyAverage = (if length periodData > 0
                          then round_double
                                 (toFixed1 (round_double (real total / real (length periodData))))
                          else 0)
      in \<lparr>dailyAverage = dailyAverage, total = total, changeFromLastPeriod = 0\<rparr>)"

text \<open>
  \<^verbatim>\<open>isThisWeek\<close> and \<^verbatim>\<open>isThisMonth\<close> of date-fns are parameters. The result is the chart's
  series and the statistics.
\<close>

definition trends_loadData ::
  "timezone \<Rightarrow> (int \<Rightarrow> bool) \<Rightarrow> (int \<Rightarrow> bool) \<Rightarrow> timeRange \<Rightarrow> int list \<Rightarrow> DailyData list
     \<Rightarrow> nat list \<times> trends_stats" where
  "trends_loadData tz isThisWeek isThisMonth timeRange allDays logsByDay =
     (let filled = filledData tz allDays logsByDay;
          periodData = (if timeRange = Week
                        then filter (\<lambda>d. isThisWeek (date d)) filled
                        else filter (\<lambda>d. isThisMonth (date d)) filled)
      in (map count filled, aggregate periodData))"

subsection \<open>The costs screen (app/(tabs)/costs.tsx, \<^verbatim>\<open>loadData\<close>)\<close>

record DailySpending = DailyData +
  amount :: real

text \<open>\<^verbatim>\<open>allDays.map(day => ...)\<close> with \<^verbatim>\<open>amount: count * cost\<close>, a product of doubles.\<close>

definition spendingData ::
  "timezone \<Rightarrow> int list \<Rightarrow> DailyData list \<Rightarrow> real \<Rightarrow> DailySpending list" where
  "spendingData tz allDays logsByDay cost =
     map (\<lambda>day.
            (let existing = find (\<lambda>d. toDateString tz (date d) = toDateString tz day) logsByDay;
                 c = (case existing of Some e \<Rightarrow> count e | None \<Rightarrow> 0)
             in \<lparr>date = day, count = c, amount = round_double (real c * cost)\<rparr>))
         allDays"




subsection \<open>The home screen (app/(tabs)/index.tsx)\<close>

datatype TimeOfDay = Morning | Afternoon | Evening | Night

text \<open>
  \<^verbatim>\<open>getTimeOfDay\<close>: every comparison with the \<^verbatim>\<open>NaN\<close> hour of an Invalid Date is false,
  which leaves \<^verbatim>\<open>'night'\<close>.
\<close>

definition getTimeOfDay :: "timezone \<Rightarrow> int option \<Rightarrow> TimeOfDay" where
  "getTimeOfDay tz d =
     (case getHours tz d of
        NaN \<Rightarrow> Night
      | Num hour \<Rightarrow>
          (if hour \<ge> 5 \<and> hour < 12 then Morning
           else if hour \<ge> 12 \<and> hour < 17 then Afternoon
           else if hour \<ge> 17 \<and> hour < 21 then Evening
           else Night))"

record timeStats =
  morning :: nat
  afternoon :: nat
  evening :: nat
  night :: nat

text \<open>\<^verbatim>\<open>updateTimeStats\<close>: \<^verbatim>\<open>newTimeStats[timeOfDay]++\<close> for each log, from all zero.\<close>

definition bump :: "TimeOfDay \<Rightarrow> timeStats \<Rightarrow> timeStats" where
  "bump timeOfDay s =
     (case timeOfDay of
        Morning \<Rightarrow> s\<lparr>morning := morning s + 1\<rparr>
      | Afternoon \<Rightarrow> s\<lparr>afternoon := afternoon s + 1\<rparr>
      | Evening \<Rightarrow> s\<lparr>evening := evening s + 1\<rparr>
      | Night \<Rightarrow> s\<lparr>night := night s + 1\<rparr>)"

definition updateTimeStats :: "timezone \<Rightarrow> CigaretteLog list \<Rightarrow> timeStats" where
  "updateTimeStats tz logs =
     fold (\<lambda>l s. bump (getTimeOfDay tz (timestamp l)) s) logs
       \<lparr>morning = 0, afternoon = 0, evening = 0, night = 0\<rparr>"

subsection \<open>Sample devices and stores\<close>

definition empty_storage :: AsyncStorage where
  "empty_storage =
     \<lparr>logs_item = None, dailyGoal_item = None, cigaretteCost_item = None,
      currency_item = None, hasSeenWelcome_item = None\<rparr>"

definition storage_with :: "CigaretteLog list \<Rightarrow> AsyncStorage" where
  "storage_with logs = empty_storage\<lparr>logs_item := Some (Encoded logs)\<rparr>"

text \<open>
  Central European time in 2024: UTC+1, and UTC+2 from 2024-03-31T01:00Z until
  2024-10-27T01:00Z. Colombian time: UTC-5 all year.
\<close>

definition Europe_Berlin :: timezone where
  "Europe_Berlin t =
     (if 1711846800000 \<le> t \<and> t < 1729990800000 then 2 * 60 * 60 * 1000 else 60 * 60 * 1000)"

definition America_Bogota :: timezone where
  "America_Bogota t = - (5 * 60 * 60 * 1000)"

definition UTC :: timezone where
  "UTC t = 0"

text \<open>
  The minute of the day that the device's clock shows at an instant: 4:59 is minute
  \<open>4 * 60 + 59\<close>. The hour of \<^verbatim>\<open>getHours()\<close> is this minute divided by 60.
\<close>

definition minute_of_day :: "timezone \<Rightarrow> int \<Rightarrow> int" where
  "minute_of_day tz t = ((t + tz t) mod MS_PER_DAY) div (60 * 1000)"

section \<open>Properties of the event store\<close>

subsection \<open>Reading and writing\<close>

lemma getLogs_total: "\<exists>logs. getLogs env st = Inr logs"
  by (simp add: getLogs_def getItem_def split: option.splits json_text.splits)

lemma getLogs_after_write:
  "getLogs env (st\<lparr>logs_item := Some (Encoded r)\<rparr>) = (if getItem_rejects env then Inr [] else Inr r)"
  by (simp add: getLogs_def getItem_def)

lemma getLogs_rejected: "getItem_rejects env \<Longrightarrow> getLogs env st = Inr []"
  by (simp add: getLogs_def getItem_def)

lemma saveLogs_eq:
  "saveLogs env logs st =
     (if setItem_rejects env then (Inl StorageError, st)
      else (Inr (), st\<lparr>logs_item := Some (Encoded logs)\<rparr>))"
  by (simp add: saveLogs_def setItem_logs_def)

lemma removeLog_success:
  assumes "removeLog env i st = (Inr r, st')" and "getLogs env st = Inr logs"
  shows "r = filter (\<lambda>l. log_id l \<noteq> i) logs"
    and "st' = st\<lparr>logs_item := Some (Encoded r)\<rparr>"
    and "\<not> setItem_rejects env"
  using assms by (auto simp: removeLog_def saveLogs_eq Let_def split: if_splits)

lemma removeLog_writes:
  assumes "\<not> setItem_rejects env" and "getLogs env st = Inr logs"
  shows "removeLog env i st =
           (Inr (filter (\<lambda>l. log_id l \<noteq> i) logs),
            st\<lparr>logs_item := Some (Encoded (filter (\<lambda>l. log_id l \<noteq> i) logs))\<rparr>)"
  using assms by (simp add: removeLog_def saveLogs_eq Let_def)

lemma addLog_success:
  assumes "addLog env now entry st = (Inr r, st')" and "getLogs env st = Inr logs"
  shows "r = logs @ [case entry of Some l \<Rightarrow> l
                     | None \<Rightarrow> \<lparr>log_id = Number_toString now, timestamp = Some now\<rparr>]"
    and "st' = st\<lparr>logs_item := Some (Encoded r)\<rparr>"
    and "\<not> setItem_rejects env"
  using assms by (auto simp: addLog_def saveLogs_eq Let_def split: if_splits)

lemma getLogs_after_removeLog:
  assumes "removeLog env i st = (Inr r, st')"
  shows "getLogs env st' = Inr r"
proof -
  obtain logs where logs: "getLogs env st = Inr logs"
    using getLogs_total by blast
  have r: "r = filter (\<lambda>l. log_id l \<noteq> i) logs" and st': "st' = st\<lparr>logs_item := Some (Encoded r)\<rparr>"
    using removeLog_success [OF assms logs] by simp_all
  show ?thesis
  proof (cases "getItem_rejects env")
    case True
    with logs have "logs = []" by (simp add: getLogs_rejected)
    with r True st' show ?thesis by (simp add: getLogs_after_write)
  next
    case False
    with st' show ?thesis by (simp add: getLogs_after_write)
  qed
qed

lemma getLogs_after_addLog:
  assumes "addLog env now entry st = (Inr r, st')" and "\<not> getItem_rejects env"
  shows "getLogs env st' = Inr r"
proof -
  obtain logs where logs: "getLogs env st = Inr logs"
    using getLogs_total by blast
  have "st' = st\<lparr>logs_item := Some (Encoded r)\<rparr>"
    using addLog_success(2) [OF assms(1) logs] .
  with assms(2) show ?thesis
    by (simp add: getLogs_after_write)
qed

lemma Number_toString_example: "Number_toString 1700000000000 = ''1700000000000''"
  by (simp add: Number_toString_def decimal.simps digit_def)

lemma getDailyGoal_cases:
  "getDailyGoal env st =
     (if getItem_rejects env then Inr 0
      else case dailyGoal_item st of
             None \<Rightarrow> Inr 0 | Some NaN \<Rightarrow> Inr 0 | Some (Num n) \<Rightarrow> Inr n)"
  by (simp add: getDailyGoal_def getItem_def DEFAULT_GOAL_def split: option.splits number.splits)

lemma getCigaretteCost_cases:
  "getCigaretteCost env st =
     (if getItem_rejects env then Inr 0
      else case cigaretteCost_item st of
             None \<Rightarrow> Inr 0 | Some NaN \<Rightarrow> Inr 0 | Some (Num c) \<Rightarrow> Inr c)"
  by (simp add: getCigaretteCost_def getItem_def DEFAULT_COST_def split: option.splits number.splits)

lemma getCurrency_cases:
  "getCurrency env st = (if getItem_rejects env then Inr None else Inr (currency_item st))"
  by (simp add: getCurrency_def getItem_def)

lemma hasSeenWelcome_cases:
  "hasSeenWelcome env st =
     (if getItem_rejects env then Inr False else Inr (hasSeenWelcome_item st = Some ''true''))"
  by (simp add: hasSeenWelcome_def getItem_def)

lemma getLogs_cases:
  "getLogs env st =
     (if getItem_rejects env then Inr []
      else case logs_item st of
             None \<Rightarrow> Inr [] | Some Malformed \<Rightarrow> Inr [] | Some (Encoded logs) \<Rightarrow> Inr logs)"
  by (simp add: getLogs_def getItem_def split: option.splits json_text.splits)

subsection \<open>Appending and removing\<close>

text \<open>
  Claim C7, as the code has it. When \<^verbatim>\<open>addLog\<close> resolves and the storage can be read,
  \<^verbatim>\<open>getLogs\<close> right after it returns the collection \<^verbatim>\<open>addLog\<close> returned, which is the
  prior collection with the entry appended as its last element; for every id, the number
  of entries with that id grows by one exactly for the id of the new entry. The code
  never compares ids, so the entry is the only one with its id exactly when the prior
  collection had none. When \<^verbatim>\<open>removeLog\<close> resolves, \<^verbatim>\<open>getLogs\<close> right after it returns
  what \<^verbatim>\<open>removeLog\<close> returned: no entry has the removed id, and the entries are those of
  the prior collection with another id.
\<close>

theorem addLog_removeLog_roundtrip:
  "(addLog env now entry st = (Inr r, st') \<and> getLogs env st = Inr logs \<and> \<not> getItem_rejects env
      \<longrightarrow> getLogs env st' = Inr r
        \<and> r = logs @ [case entry of Some l \<Rightarrow> l
                        | None \<Rightarrow> \<lparr>log_id = Number_toString now, timestamp = Some now\<rparr>]
        \<and> (\<forall>k. length (filter (\<lambda>l. log_id l = k) r)
                 = length (filter (\<lambda>l. log_id l = k) logs) + (if log_id (last r) = k then 1 else 0)))
   \<and> (removeLog env i st = (Inr r, st') \<and> getLogs env st = Inr logs
      \<longrightarrow> getLogs env st' = Inr r
        \<and> (\<forall>l \<in> set r. log_id l \<noteq> i)
        \<and> set r = {l \<in> set logs. log_id l \<noteq> i})"
proof (intro conjI impI)
  assume h: "addLog env now entry st = (Inr r, st') \<and> getLogs env st = Inr logs \<and> \<not> getItem_rejects env"
  then show "getLogs env st' = Inr r"
    using getLogs_after_addLog by blast
  from h show r: "r = logs @ [case entry of Some l \<Rightarrow> l
                        | None \<Rightarrow> \<lparr>log_id = Number_toString now, timestamp = Some now\<rparr>]"
    using addLog_success(1) by blast
  show "\<forall>k. length (filter (\<lambda>l. log_id l = k) r)
                 = length (filter (\<lambda>l. log_id l = k) logs) + (if log_id (last r) = k then 1 else 0)"
    by (subst (1 2) r) simp
next
  assume h: "removeLog env i st = (Inr r, st') \<and> getLogs env st = Inr logs"
  then show "getLogs env st' = Inr r"
    using getLogs_after_removeLog by blast
  from h have r: "r = filter (\<lambda>l. log_id l \<noteq> i) logs"
    using removeLog_success(1) by blast
  show "\<forall>l \<in> set r. log_id l \<noteq> i"
    by (simp add: r)
  show "set r = {l \<in> set logs. log_id l \<noteq> i}"
    by (simp add: r)
qed

theorem addLog_removeLog_roundtrip_witness:
  "addLog working 30 (Some \<lparr>log_id = ''3'', timestamp = Some 30\<rparr>)
     (storage_with [\<lparr>log_id = ''1'', timestamp = Some 10\<rparr>, \<lparr>log_id = ''2'', timestamp = Some 20\<rparr>])
     = (Inr [\<lparr>log_id = ''1'', timestamp = Some 10\<rparr>, \<lparr>log_id = ''2'', timestamp = Some 20\<rparr>,
             \<lparr>log_id = ''3'', timestamp = Some 30\<rparr>],
        storage_with [\<lparr>log_id = ''1'', timestamp = Some 10\<rparr>, \<lparr>log_id = ''2'', timestamp = Some 20\<rparr>,
                      \<lparr>log_id = ''3'', timestamp = Some 30\<rparr>])
   \<and> getLogs working
        (storage_with [\<lparr>log_id = ''1'', timestamp = Some 10\<rparr>, \<lparr>log_id = ''2'', timestamp = Some 20\<rparr>])
       = Inr [\<lparr>log_id = ''1'', timestamp = Some 10\<rparr>, \<lparr>log_id = ''2'', timestamp = Some 20\<rparr>]
   \<and> \<not> getItem_rejects working
   \<and> getLogs working
        (storage_with [\<lparr>log_id = ''1'', timestamp = Some 10\<rparr>, \<lparr>log_id = ''2'', timestamp = Some 20\<rparr>,
                       \<lparr>log_id = ''3'', timestamp = Some 30\<rparr>])
       = Inr [\<lparr>log_id = ''1'', timestamp = Some 10\<rparr>, \<lparr>log_id = ''2'', timestamp = Some 20\<rparr>,
              \<lparr>log_id = ''3'', timestamp = Some 30\<rparr>]
   \<and> removeLog working ''1''
        (storage_with [\<lparr>log_id = ''1'', timestamp = Some 10\<rparr>, \<lparr>log_id = ''2'', timestamp = Some 20\<rparr>])
       = (Inr [\<lparr>log_id = ''2'', timestamp = Some 20\<rparr>],
          storage_with [\<lparr>log_id = ''2'', timestamp = Some 20\<rparr>])
   \<and> getLogs working (storage_with [\<lparr>log_id = ''2'', timestamp = Some 20\<rparr>])
       = Inr [\<lparr>log_id = ''2'', timestamp = Some 20\<rparr>]"
proof -
  let ?a = "\<lparr>log_id = ''1'', timestamp = Some (10::int)\<rparr>"
  let ?b = "\<lparr>log_id = ''2'', timestamp = Some (20::int)\<rparr>"
  let ?c = "\<lparr>log_id = ''3'', timestamp = Some (30::int)\<rparr>"
  have add: "addLog working 30 (Some ?c) (storage_with [?a, ?b])
      = (Inr [?a, ?b, ?c], storage_with [?a, ?b, ?c])"
    by (simp add: addLog_def getLogs_def getItem_def saveLogs_def setItem_logs_def working_def
        storage_with_def empty_storage_def Let_def)
  have read: "getLogs working (storage_with [?a, ?b]) = Inr [?a, ?b]"
    by (simp add: getLogs_def getItem_def working_def storage_with_def empty_storage_def)
  have ok: "\<not> getItem_rejects working"
    by (simp add: working_def)
  have remove: "removeLog working ''1'' (storage_with [?a, ?b]) = (Inr [?b], storage_with [?b])"
    by (simp add: removeLog_def getLogs_def getItem_def saveLogs_def setItem_logs_def working_def
        storage_with_def empty_storage_def Let_def)
  note t1 = addLog_removeLog_roundtrip [of working 30 "Some ?c" "storage_with [?a, ?b]"
      "[?a, ?b, ?c]" "storage_with [?a, ?b, ?c]" "[?a, ?b]"]
  note t2 = addLog_removeLog_roundtrip [of working _ _ "storage_with [?a, ?b]"
      "[?b]" "storage_with [?b]" "[?a, ?b]" "''1''"]
  have after_add: "getLogs working (storage_with [?a, ?b, ?c]) = Inr [?a, ?b, ?c]"
    using conjunct1 [OF t1] add read ok by blast
  have after_remove: "getLogs working (storage_with [?b]) = Inr [?b]"
    using conjunct2 [OF t2] remove read by blast
  from add read ok after_add remove after_remove show ?thesis
    by (intro conjI)
qed

text \<open>
  Claim C7 as stated fails: two calls of \<^verbatim>\<open>addLog()\<close> without an argument within the
  same millisecond make the same id twice, and both entries are stored.
\<close>

theorem addLog_same_id_twice_counterexample:
  "getLogs working
     (snd (addLog working 1700000000000 None
        (snd (addLog working 1700000000000 None empty_storage))))
   = Inr [\<lparr>log_id = ''1700000000000'', timestamp = Some 1700000000000\<rparr>,
          \<lparr>log_id = ''1700000000000'', timestamp = Some 1700000000000\<rparr>]"
  by (simp add: addLog_def getLogs_def getItem_def saveLogs_def setItem_logs_def working_def
      empty_storage_def Let_def Number_toString_example)

text \<open>
  Claim C8. While the storage accepts writes, \<^verbatim>\<open>removeLog\<close> resolves; a second call with
  the same id resolves to the same collection as the first, and \<^verbatim>\<open>getLogs\<close> returns that
  collection after either call. For an id that no entry of the collection has, the
  collection is returned as it was.
\<close>

theorem removeLog_idempotent:
  assumes "\<not> setItem_rejects env"
  shows "(\<exists>r. fst (removeLog env i st) = Inr r)
         \<and> fst (removeLog env i (snd (removeLog env i st))) = fst (removeLog env i st)
         \<and> getLogs env (snd (removeLog env i st)) = fst (removeLog env i st)
         \<and> getLogs env (snd (removeLog env i (snd (removeLog env i st))))
             = fst (removeLog env i st)
         \<and> (\<forall>logs. getLogs env st = Inr logs \<and> i \<notin> log_id ` set logs
               \<longrightarrow> fst (removeLog env i st) = Inr logs)"
proof -
  obtain logs where logs: "getLogs env st = Inr logs"
    using getLogs_total by blast
  define r where "r = filter (\<lambda>l. log_id l \<noteq> i) logs"
  define st1 where "st1 = st\<lparr>logs_item := Some (Encoded r)\<rparr>"
  define st2 where "st2 = st1\<lparr>logs_item := Some (Encoded r)\<rparr>"
  have first: "removeLog env i st = (Inr r, st1)"
    using removeLog_writes [OF assms logs] by (simp add: r_def st1_def)
  have read1: "getLogs env st1 = Inr r"
    by (rule getLogs_after_removeLog [OF first])
  have "filter (\<lambda>l. log_id l \<noteq> i) r = r"
    by (simp add: r_def)
  with removeLog_writes [OF assms read1, of i]
  have second: "removeLog env i st1 = (Inr r, st2)"
    by (simp add: st2_def)
  have read2: "getLogs env st2 = Inr r"
    by (rule getLogs_after_removeLog [OF second])
  have absent: "\<forall>logs'. getLogs env st = Inr logs' \<and> i \<notin> log_id ` set logs' \<longrightarrow> Inr r = Inr logs'"
  proof (intro allI impI)
    fix logs' assume h: "getLogs env st = Inr logs' \<and> i \<notin> log_id ` set logs'"
    with logs have "logs' = logs" by simp
    moreover from h have "filter (\<lambda>l. log_id l \<noteq> i) logs' = logs'"
      by (intro filter_True) auto
    ultimately show "Inr r = Inr logs'" by (simp add: r_def)
  qed
  show ?thesis
    unfolding first fst_conv snd_conv second read1 read2
    using absent by simp
qed

theorem removeLog_idempotent_witness:
  "\<not> setItem_rejects working
   \<and> fst (removeLog working ''1''
        (storage_with [\<lparr>log_id = ''1'', timestamp = Some 10\<rparr>, \<lparr>log_id = ''2'', timestamp = Some 20\<rparr>]))
       = Inr [\<lparr>log_id = ''2'', timestamp = Some 20\<rparr>]
   \<and> fst (removeLog working ''1'' (snd (removeLog working ''1''
        (storage_with [\<lparr>log_id = ''1'', timestamp = Some 10\<rparr>, \<lparr>log_id = ''2'', timestamp = Some 20\<rparr>]))))
       = Inr [\<lparr>log_id = ''2'', timestamp = Some 20\<rparr>]
   \<and> getLogs working (storage_with [\<lparr>log_id = ''2'', timestamp = Some 20\<rparr>])
        = Inr [\<lparr>log_id = ''2'', timestamp = Some 20\<rparr>]
   \<and> ''1'' \<notin> log_id ` set [\<lparr>log_id = ''2'', timestamp = Some 20\<rparr>]
   \<and> fst (removeLog working ''1'' (storage_with [\<lparr>log_id = ''2'', timestamp = Some 20\<rparr>]))
        = Inr [\<lparr>log_id = ''2'', timestamp = Some 20\<rparr>]"
proof -
  let ?a = "\<lparr>log_id = ''1'', timestamp = Some (10::int)\<rparr>"
  let ?b = "\<lparr>log_id = ''2'', timestamp = Some (20::int)\<rparr>"
  have h: "\<not> setItem_rejects working"
    by (simp add: working_def)
  have first: "fst (removeLog working ''1'' (storage_with [?a, ?b])) = Inr [?b]"
    by (simp add: removeLog_def getLogs_def getItem_def saveLogs_def setItem_logs_def working_def
        storage_with_def empty_storage_def Let_def)
  have read: "getLogs working (storage_with [?b]) = Inr [?b]"
    by (simp add: getLogs_def getItem_def working_def storage_with_def empty_storage_def)
  have absent: "''1'' \<notin> log_id ` set [?b]"
    by simp
  have twice: "fst (removeLog working ''1'' (snd (removeLog working ''1'' (storage_with [?a, ?b]))))
      = Inr [?b]"
    using removeLog_idempotent [OF h, of "''1''" "storage_with [?a, ?b]"] first
    by (elim conjE) simp
  have noop: "fst (removeLog working ''1'' (storage_with [?b])) = Inr [?b]"
    using removeLog_idempotent [OF h, of "''1''" "storage_with [?b]"] read absent
    by (elim conjE) blast
  from h first twice read absent noop show ?thesis
    by (intro conjI)
qed

text \<open>
  Claim C10. When \<^verbatim>\<open>removeLog\<close> resolves, no entry of the returned collection has the
  given id, however many entries had it, and the returned collection is the prior one
  without those entries, the others in their order; it is what was stored.
\<close>

theorem removeLog_removes_every_match:
  assumes "removeLog env i st = (Inr r, st')" and "getLogs env st = Inr logs"
  shows "(\<forall>l \<in> set r. log_id l \<noteq> i) \<and> r = filter (\<lambda>l. log_id l \<noteq> i) logs
         \<and> subseq r logs \<and> getLogs env st' = Inr r"
  using removeLog_success(1) [OF assms] getLogs_after_removeLog [OF assms(1)]
  by simp

theorem removeLog_removes_every_match_witness:
  "removeLog working ''1''
     (storage_with [\<lparr>log_id = ''1'', timestamp = Some 10\<rparr>, \<lparr>log_id = ''2'', timestamp = Some 20\<rparr>,
                    \<lparr>log_id = ''1'', timestamp = Some 30\<rparr>])
     = (Inr [\<lparr>log_id = ''2'', timestamp = Some 20\<rparr>],
        storage_with [\<lparr>log_id = ''2'', timestamp = Some 20\<rparr>])
   \<and> getLogs working
        (storage_with [\<lparr>log_id = ''1'', timestamp = Some 10\<rparr>, \<lparr>log_id = ''2'', timestamp = Some 20\<rparr>,
                       \<lparr>log_id = ''1'', timestamp = Some 30\<rparr>])
     = Inr [\<lparr>log_id = ''1'', timestamp = Some 10\<rparr>, \<lparr>log_id = ''2'', timestamp = Some 20\<rparr>,
            \<lparr>log_id = ''1'', timestamp = Some 30\<rparr>]
   \<and> ''1'' \<notin> log_id ` set [\<lparr>log_id = ''2'', timestamp = Some 20\<rparr>]
   \<and> subseq [\<lparr>log_id = ''2'', timestamp = Some 20\<rparr>]
        [\<lparr>log_id = ''1'', timestamp = Some 10\<rparr>, \<lparr>log_id = ''2'', timestamp = Some 20\<rparr>,
         \<lparr>log_id = ''1'', timestamp = Some 30\<rparr>]
   \<and> getLogs working (storage_with [\<lparr>log_id = ''2'', timestamp = Some 20\<rparr>])
     = Inr [\<lparr>log_id = ''2'', timestamp = Some 20\<rparr>]"
proof -
  let ?a = "\<lparr>log_id = ''1'', timestamp = Some (10::int)\<rparr>"
  let ?b = "\<lparr>log_id = ''2'', timestamp = Some (20::int)\<rparr>"
  let ?c = "\<lparr>log_id = ''1'', timestamp = Some (30::int)\<rparr>"
  have h1: "removeLog working ''1'' (storage_with [?a, ?b, ?c]) = (Inr [?b], storage_with [?b])"
    by (simp add: removeLog_def getLogs_def getItem_def saveLogs_def setItem_logs_def working_def
        storage_with_def empty_storage_def Let_def)
  have h2: "getLogs working (storage_with [?a, ?b, ?c]) = Inr [?a, ?b, ?c]"
    by (simp add: getLogs_def getItem_def working_def storage_with_def empty_storage_def)
  note t = removeLog_removes_every_match [OF h1 h2]
  have "\<forall>l \<in> set [?b]. log_id l \<noteq> ''1''"
    using t by (elim conjE)
  then have c1: "''1'' \<notin> log_id ` set [?b]"
    by simp
  have c3: "subseq [?b] [?a, ?b, ?c]"
    using t by (elim conjE)
  have c4: "getLogs working (storage_with [?b]) = Inr [?b]"
    using t by (elim conjE)
  from h1 h2 c1 c3 c4 show ?thesis
    by (intro conjI)
qed

subsection \<open>Reads never reject\<close>

text \<open>
  Claim C9. \<^verbatim>\<open>getLogs\<close> and the preference getters always resolve. When the read is
  rejected, the key is absent, or the text cannot be parsed, \<^verbatim>\<open>getLogs\<close> gives the empty
  collection, \<^verbatim>\<open>getDailyGoal\<close> and \<^verbatim>\<open>getCigaretteCost\<close> give 0, \<^verbatim>\<open>getCurrency\<close> gives
  \<^verbatim>\<open>null\<close> and \<^verbatim>\<open>hasSeenWelcome\<close> gives \<^verbatim>\<open>false\<close>.
\<close>

theorem reads_never_fail:
  "(\<exists>logs. getLogs env st = Inr logs)
   \<and> (\<exists>goal. getDailyGoal env st = Inr goal)
   \<and> (\<exists>cost. getCigaretteCost env st = Inr cost)
   \<and> (\<exists>code. getCurrency env st = Inr code)
   \<and> (\<exists>seen. hasSeenWelcome env st = Inr seen)
   \<and> (getItem_rejects env \<or> logs_item st = None \<or> logs_item st = Some Malformed
        \<longrightarrow> getLogs env st = Inr [])
   \<and> (getItem_rejects env \<or> dailyGoal_item st = None \<or> dailyGoal_item st = Some NaN
        \<longrightarrow> getDailyGoal env st = Inr 0)
   \<and> (getItem_rejects env \<or> cigaretteCost_item st = None \<or> cigaretteCost_item st = Some NaN
        \<longrightarrow> getCigaretteCost env st = Inr 0)
   \<and> (getItem_rejects env \<or> currency_item st = None \<longrightarrow> getCurrency env st = Inr None)
   \<and> (getItem_rejects env \<or> hasSeenWelcome_item st = None
        \<longrightarrow> hasSeenWelcome env st = Inr False)"
proof (intro conjI)
  show "\<exists>logs. getLogs env st = Inr logs"
    by (rule getLogs_total)
  show "\<exists>goal. getDailyGoal env st = Inr goal"
    by (simp add: getDailyGoal_cases split: option.splits number.splits)
  show "\<exists>cost. getCigaretteCost env st = Inr cost"
    by (simp add: getCigaretteCost_cases split: option.splits number.splits)
  show "\<exists>code. getCurrency env st = Inr code"
    by (simp add: getCurrency_cases)
  show "\<exists>seen. hasSeenWelcome env st = Inr seen"
    by (cases "getItem_rejects env") (auto simp: hasSeenWelcome_cases)
  show "getItem_rejects env \<or> logs_item st = None \<or> logs_item st = Some Malformed
        \<longrightarrow> getLogs env st = Inr []"
    by (auto simp: getLogs_cases)
  show "getItem_rejects env \<or> dailyGoal_item st = None \<or> dailyGoal_item st = Some NaN
        \<longrightarrow> getDailyGoal env st = Inr 0"
    by (auto simp: getDailyGoal_cases)
  show "getItem_rejects env \<or> cigaretteCost_item st = None \<or> cigaretteCost_item st = Some NaN
        \<longrightarrow> getCigaretteCost env st = Inr 0"
    by (auto simp: getCigaretteCost_cases)
  show "getItem_rejects env \<or> currency_item st = None \<longrightarrow> getCurrency env st = Inr None"
    by (auto simp: getCurrency_cases)
  show "getItem_rejects env \<or> hasSeenWelcome_item st = None
        \<longrightarrow> hasSeenWelcome env st = Inr False"
    by (auto simp: hasSeenWelcome_cases)
qed

theorem reads_never_fail_witness:
  "getItem_rejects \<lparr>getItem_rejects = True, setItem_rejects = False\<rparr>
   \<and> getLogs \<lparr>getItem_rejects = True, setItem_rejects = False\<rparr>
        (storage_with [\<lparr>log_id = ''1'', timestamp = Some 10\<rparr>]) = Inr []
   \<and> getDailyGoal \<lparr>getItem_rejects = True, setItem_rejects = False\<rparr>
        (empty_storage\<lparr>dailyGoal_item := Some (Num 7)\<rparr>) = Inr 0
   \<and> logs_item empty_storage = None \<and> getLogs working empty_storage = Inr []
   \<and> dailyGoal_item empty_storage = None \<and> getDailyGoal working empty_storage = Inr 0
   \<and> getCurrency working empty_storage = Inr None
   \<and> hasSeenWelcome working empty_storage = Inr False"
  using reads_never_fail [of "\<lparr>getItem_rejects = True, setItem_rejects = False\<rparr>"
      "storage_with [\<lparr>log_id = ''1'', timestamp = Some 10\<rparr>]"]
    reads_never_fail [of "\<lparr>getItem_rejects = True, setItem_rejects = False\<rparr>"
      "empty_storage\<lparr>dailyGoal_item := Some (Num 7)\<rparr>"]
    reads_never_fail [of working empty_storage]
  by (simp add: empty_storage_def)

section \<open>Properties of the screens' computations\<close>

subsection \<open>Time of day\<close>

lemma getHours_minute_of_day: "getHours tz (Some t) = Num (minute_of_day tz t div 60)"
  by (simp add: getHours_def minute_of_day_def div_mult2_eq [symmetric])

lemma minute_of_day_range: "0 \<le> minute_of_day tz t \<and> minute_of_day tz t < 24 * 60"
  by (simp add: minute_of_day_def MS_PER_DAY_def pos_imp_zdiv_nonneg_iff div_less_iff_less_mult)

lemma getTimeOfDay_hour:
  "getTimeOfDay tz (Some t) =
     (let hour = minute_of_day tz t div 60
      in if 5 \<le> hour \<and> hour < 12 then Morning
         else if 12 \<le> hour \<and> hour < 17 then Afternoon
         else if 17 \<le> hour \<and> hour < 21 then Evening
         else Night)"
  by (simp add: getTimeOfDay_def getHours_minute_of_day Let_def)

lemma fold_bump_morning:
  "morning (fold (\<lambda>l s. bump (f l) s) logs s0) = morning s0 + length (filter (\<lambda>l. f l = Morning) logs)"
  by (induction logs arbitrary: s0) (auto simp: bump_def split: TimeOfDay.splits)

lemma fold_bump_afternoon:
  "afternoon (fold (\<lambda>l s. bump (f l) s) logs s0) = afternoon s0 + length (filter (\<lambda>l. f l = Afternoon) logs)"
  by (induction logs arbitrary: s0) (auto simp: bump_def split: TimeOfDay.splits)

lemma fold_bump_evening:
  "evening (fold (\<lambda>l s. bump (f l) s) logs s0) = evening s0 + length (filter (\<lambda>l. f l = Evening) logs)"
  by (induction logs arbitrary: s0) (auto simp: bump_def split: TimeOfDay.splits)

lemma fold_bump_night:
  "night (fold (\<lambda>l s. bump (f l) s) logs s0) = night s0 + length (filter (\<lambda>l. f l = Night) logs)"
  by (induction logs arbitrary: s0) (auto simp: bump_def split: TimeOfDay.splits)

lemma four_way_partition:
  "length (filter (\<lambda>l. f l = Morning) logs) + length (filter (\<lambda>l. f l = Afternoon) logs)
     + length (filter (\<lambda>l. f l = Evening) logs) + length (filter (\<lambda>l. f l = Night) logs)
   = length logs"
proof (induction logs)
  case Nil
  show ?case by simp
next
  case (Cons l logs)
  then show ?case by (cases "f l") simp_all
qed

text \<open>
  Claim C5. The local hour of an entry lies in 0 to 23, and \<^verbatim>\<open>getTimeOfDay\<close> gives
  morning for the hours 5 to 11, afternoon for 12 to 16, evening for 17 to 20 and night
  for the other hours, 21 to 23 and 0 to 4; so 4:59 is night, 5:00 and 11:59 morning,
  12:00 and 16:59 afternoon, 17:00 and 20:59 evening, 21:00 night. \<^verbatim>\<open>updateTimeStats\<close>
  counts each entry in the one bucket \<^verbatim>\<open>getTimeOfDay\<close> gives it: the four counts add up
  to the number of entries.
\<close>

theorem timeOfDay_boundaries:
  "(let hour = minute_of_day tz t div 60 in
      0 \<le> hour \<and> hour < 24
      \<and> (5 \<le> hour \<and> hour < 12 \<longrightarrow> getTimeOfDay tz (Some t) = Morning)
      \<and> (12 \<le> hour \<and> hour < 17 \<longrightarrow> getTimeOfDay tz (Some t) = Afternoon)
      \<and> (17 \<le> hour \<and> hour < 21 \<longrightarrow> getTimeOfDay tz (Some t) = Evening)
      \<and> (21 \<le> hour \<or> hour < 5 \<longrightarrow> getTimeOfDay tz (Some t) = Night))
   \<and> (minute_of_day tz t = 4 * 60 + 59 \<longrightarrow> getTimeOfDay tz (Some t) = Night)
   \<and> (minute_of_day tz t = 5 * 60 \<longrightarrow> getTimeOfDay tz (Some t) = Morning)
   \<and> (minute_of_day tz t = 11 * 60 + 59 \<longrightarrow> getTimeOfDay tz (Some t) = Morning)
   \<and> (minute_of_day tz t = 12 * 60 \<longrightarrow> getTimeOfDay tz (Some t) = Afternoon)
   \<and> (minute_of_day tz t = 16 * 60 + 59 \<longrightarrow> getTimeOfDay tz (Some t) = Afternoon)
   \<and> (minute_of_day tz t = 17 * 60 \<longrightarrow> getTimeOfDay tz (Some t) = Evening)
   \<and> (minute_of_day tz t = 20 * 60 + 59 \<longrightarrow> getTimeOfDay tz (Some t) = Evening)
   \<and> (minute_of_day tz t = 21 * 60 \<longrightarrow> getTimeOfDay tz (Some t) = Night)
   \<and> morning (updateTimeStats tz logs)
        = length (filter (\<lambda>l. getTimeOfDay tz (timestamp l) = Morning) logs)
   \<and> afternoon (updateTimeStats tz logs)
        = length (filter (\<lambda>l. getTimeOfDay tz (timestamp l) = Afternoon) logs)
   \<and> evening (updateTimeStats tz logs)
        = length (filter (\<lambda>l. getTimeOfDay tz (timestamp l) = Evening) logs)
   \<and> night (updateTimeStats tz logs)
        = length (filter (\<lambda>l. getTimeOfDay tz (timestamp l) = Night) logs)
   \<and> morning (updateTimeStats tz logs) + afternoon (updateTimeStats tz logs)
        + evening (updateTimeStats tz logs) + night (updateTimeStats tz logs) = length logs"
proof -
  have range: "0 \<le> minute_of_day tz t div 60 \<and> minute_of_day tz t div 60 < 24"
    using minute_of_day_range [of tz t] by presburger
  have hours: "let hour = minute_of_day tz t div 60 in
      0 \<le> hour \<and> hour < 24
      \<and> (5 \<le> hour \<and> hour < 12 \<longrightarrow> getTimeOfDay tz (Some t) = Morning)
      \<and> (12 \<le> hour \<and> hour < 17 \<longrightarrow> getTimeOfDay tz (Some t) = Afternoon)
      \<and> (17 \<le> hour \<and> hour < 21 \<longrightarrow> getTimeOfDay tz (Some t) = Evening)
      \<and> (21 \<le> hour \<or> hour < 5 \<longrightarrow> getTimeOfDay tz (Some t) = Night)"
    using range by (auto simp: getTimeOfDay_hour Let_def)
  have m: "morning (updateTimeStats tz logs)
        = length (filter (\<lambda>l. getTimeOfDay tz (timestamp l) = Morning) logs)"
    by (simp add: updateTimeStats_def fold_bump_morning)
  have a: "afternoon (updateTimeStats tz logs)
        = length (filter (\<lambda>l. getTimeOfDay tz (timestamp l) = Afternoon) logs)"
    by (simp add: updateTimeStats_def fold_bump_afternoon)
  have e: "evening (updateTimeStats tz logs)
        = length (filter (\<lambda>l. getTimeOfDay tz (timestamp l) = Evening) logs)"
    by (simp add: updateTimeStats_def fold_bump_evening)
  have n: "night (updateTimeStats tz logs)
        = length (filter (\<lambda>l. getTimeOfDay tz (timestamp l) = Night) logs)"
    by (simp add: updateTimeStats_def fold_bump_night)
  have total: "morning (updateTimeStats tz logs) + afternoon (updateTimeStats tz logs)
        + evening (updateTimeStats tz logs) + night (updateTimeStats tz logs) = length logs"
    unfolding m a e n by (rule four_way_partition)
  have ex: "minute_of_day tz t = 4 * 60 + 59 \<longrightarrow> getTimeOfDay tz (Some t) = Night"
    "minute_of_day tz t = 5 * 60 \<longrightarrow> getTimeOfDay tz (Some t) = Morning"
    "minute_of_day tz t = 11 * 60 + 59 \<longrightarrow> getTimeOfDay tz (Some t) = Morning"
    "minute_of_day tz t = 12 * 60 \<longrightarrow> getTimeOfDay tz (Some t) = Afternoon"
    "minute_of_day tz t = 16 * 60 + 59 \<longrightarrow> getTimeOfDay tz (Some t) = Afternoon"
    "minute_of_day tz t = 17 * 60 \<longrightarrow> getTimeOfDay tz (Some t) = Evening"
    "minute_of_day tz t = 20 * 60 + 59 \<longrightarrow> getTimeOfDay tz (Some t) = Evening"
    "minute_of_day tz t = 21 * 60 \<longrightarrow> getTimeOfDay tz (Some t) = Night"
    by (simp_all add: getTimeOfDay_hour Let_def)
  from hours ex m a e n total show ?thesis
    by (intro conjI)
qed

theorem timeOfDay_boundaries_witness:
  "minute_of_day UTC 17940000 = 4 * 60 + 59 \<and> getTimeOfDay UTC (Some 17940000) = Night
   \<and> minute_of_day UTC 18000000 = 5 * 60 \<and> getTimeOfDay UTC (Some 18000000) = Morning
   \<and> minute_of_day UTC 43140000 = 11 * 60 + 59 \<and> getTimeOfDay UTC (Some 43140000) = Morning
   \<and> minute_of_day UTC 43200000 = 12 * 60 \<and> getTimeOfDay UTC (Some 43200000) = Afternoon
   \<and> minute_of_day UTC 61140000 = 16 * 60 + 59 \<and> getTimeOfDay UTC (Some 61140000) = Afternoon
   \<and> minute_of_day UTC 61200000 = 17 * 60 \<and> getTimeOfDay UTC (Some 61200000) = Evening
   \<and> minute_of_day UTC 75540000 = 20 * 60 + 59 \<and> getTimeOfDay UTC (Some 75540000) = Evening
   \<and> minute_of_day UTC 75600000 = 21 * 60 \<and> getTimeOfDay UTC (Some 75600000) = Night
   \<and> morning (updateTimeStats UTC [\<lparr>log_id = ''1'', timestamp = Some 28800000\<rparr>, \<lparr>log_id = ''2'', timestamp = Some 50400000\<rparr>]) = 1
   \<and> afternoon (updateTimeStats UTC [\<lparr>log_id = ''1'', timestamp = Some 28800000\<rparr>, \<lparr>log_id = ''2'', timestamp = Some 50400000\<rparr>]) = 1
   \<and> evening (updateTimeStats UTC [\<lparr>log_id = ''1'', timestamp = Some 28800000\<rparr>, \<lparr>log_id = ''2'', timestamp = Some 50400000\<rparr>]) = 0
   \<and> night (updateTimeStats UTC [\<lparr>log_id = ''1'', timestamp = Some 28800000\<rparr>, \<lparr>log_id = ''2'', timestamp = Some 50400000\<rparr>]) = 0"
proof -
  have m0: "minute_of_day UTC 17940000 = 4 * 60 + 59"
    by (simp add: minute_of_day_def UTC_def MS_PER_DAY_def)
  have r0: "getTimeOfDay UTC (Some 17940000) = Night"
    using timeOfDay_boundaries [of UTC 17940000 "[]"] m0 by simp
  have m1: "minute_of_day UTC 18000000 = 5 * 60"
    by (simp add: minute_of_day_def UTC_def MS_PER_DAY_def)
  have r1: "getTimeOfDay UTC (Some 18000000) = Morning"
    using timeOfDay_boundaries [of UTC 18000000 "[]"] m1 by simp
  have m2: "minute_of_day UTC 43140000 = 11 * 60 + 59"
    by (simp add: minute_of_day_def UTC_def MS_PER_DAY_def)
  have r2: "getTimeOfDay UTC (Some 43140000) = Morning"
    using timeOfDay_boundaries [of UTC 43140000 "[]"] m2 by simp
  have m3: "minute_of_day UTC 43200000 = 12 * 60"
    by (simp add: minute_of_day_def UTC_def MS_PER_DAY_def)
  have r3: "getTimeOfDay UTC (Some 43200000) = Afternoon"
    using timeOfDay_boundaries [of UTC 43200000 "[]"] m3 by simp
  have m4: "minute_of_day UTC 61140000 = 16 * 60 + 59"
    by (simp add: minute_of_day_def UTC_def MS_PER_DAY_def)
  have r4: "getTimeOfDay UTC (Some 61140000) = Afternoon"
    using timeOfDay_boundaries [of UTC 61140000 "[]"] m4 by simp
  have m5: "minute_of_day UTC 61200000 = 17 * 60"
    by (simp add: minute_of_day_def UTC_def MS_PER_DAY_def)
  have r5: "getTimeOfDay UTC (Some 61200000) = Evening"
    using timeOfDay_boundaries [of UTC 61200000 "[]"] m5 by simp
  have m6: "minute_of_day UTC 75540000 = 20 * 60 + 59"
    by (simp add: minute_of_day_def UTC_def MS_PER_DAY_def)
  have r6: "getTimeOfDay UTC (Some 75540000) = Evening"
    using timeOfDay_boundaries [of UTC 75540000 "[]"] m6 by simp
  have m7: "minute_of_day UTC 75600000 = 21 * 60"
    by (simp add: minute_of_day_def UTC_def MS_PER_DAY_def)
  have r7: "getTimeOfDay UTC (Some 75600000) = Night"
    using timeOfDay_boundaries [of UTC 75600000 "[]"] m7 by simp
  have h8: "getTimeOfDay UTC (Some 28800000) = Morning"
    by (simp add: getTimeOfDay_def getHours_def UTC_def MS_PER_DAY_def)
  have h14: "getTimeOfDay UTC (Some 50400000) = Afternoon"
    by (simp add: getTimeOfDay_def getHours_def UTC_def MS_PER_DAY_def)
  note hist = timeOfDay_boundaries [of UTC 0 "[\<lparr>log_id = ''1'', timestamp = Some 28800000\<rparr>, \<lparr>log_id = ''2'', timestamp = Some 50400000\<rparr>]"]
  have s1: "morning (updateTimeStats UTC [\<lparr>log_id = ''1'', timestamp = Some 28800000\<rparr>, \<lparr>log_id = ''2'', timestamp = Some 50400000\<rparr>]) = 1"
    using hist h8 h14 by simp
  have s2: "afternoon (updateTimeStats UTC [\<lparr>log_id = ''1'', timestamp = Some 28800000\<rparr>, \<lparr>log_id = ''2'', timestamp = Some 50400000\<rparr>]) = 1"
    using hist h8 h14 by simp
  have s3: "evening (updateTimeStats UTC [\<lparr>log_id = ''1'', timestamp = Some 28800000\<rparr>, \<lparr>log_id = ''2'', timestamp = Some 50400000\<rparr>]) = 0"
    using hist h8 h14 by simp
  have s4: "night (updateTimeStats UTC [\<lparr>log_id = ''1'', timestamp = Some 28800000\<rparr>, \<lparr>log_id = ''2'', timestamp = Some 50400000\<rparr>]) = 0"
    using hist h8 h14 by simp
  from m0 r0 m1 r1 m2 r2 m3 r3 m4 r4 m5 r5 m6 r6 m7 r7 s1 s2 s3 s4 show ?thesis
    by (intro conjI)
qed

subsection \<open>Double arithmetic\<close>

text \<open>
  \<^verbatim>\<open>round_double\<close> is within half a unit in the last place of its argument, that is
  within the relative error \<open>2\<^sup>-\<^sup>5\<^sup>3\<close> in the normal range, and leaves an integer below
  \<open>2\<^sup>5\<^sup>3\<close> as it is.
\<close>

lemma round_half_even_close: "\<bar>of_int (round_half_even y) - y\<bar> \<le> 1 / 2"
proof -
  have "of_int \<lfloor>y\<rfloor> \<le> y" and "y < of_int \<lfloor>y\<rfloor> + 1"
    by linarith+
  then show ?thesis
    by (auto simp: round_half_even_def Let_def)
qed


lemma normalise_0: "normalise 0 y u = (y, u)"
  by (simp add: normalise.simps)

lemma normalise_down:
  "n \<noteq> 0 \<Longrightarrow> 2 ^ 53 \<le> y \<Longrightarrow> normalise n y u = normalise (n - 1) (y / 2) (u * 2)"
  by (subst normalise.simps) simp

lemma normalise_up:
  "n \<noteq> 0 \<Longrightarrow> \<not> 2 ^ 53 \<le> y \<Longrightarrow> y < 2 ^ 52 \<and> MIN_ULP < u \<Longrightarrow>
   normalise n y u = normalise (n - 1) (y * 2) (u / 2)"
  by (subst normalise.simps) simp

lemma normalise_stop:
  "n \<noteq> 0 \<Longrightarrow> \<not> 2 ^ 53 \<le> y \<Longrightarrow> \<not> (y < 2 ^ 52 \<and> MIN_ULP < u) \<Longrightarrow>
   normalise n y u = (y, u)"
  by (subst normalise.simps) auto

lemma normalise_product:
  "normalise n y u = (y', u') \<Longrightarrow> y' * u' = y * u"
proof (induction n y u rule: normalise.induct)
  case (1 n y u)
  show ?case
  proof (cases "n = 0")
    case True
    with "1.prems" show ?thesis
      by (simp add: normalise_0)
  next
    case n: False
    show ?thesis
    proof (cases "2 ^ 53 \<le> y")
      case True
      with n "1.prems" have "normalise (n - 1) (y / 2) (u * 2) = (y', u')"
        by (simp add: normalise_down)
      from "1.IH"(1) [OF n True this] show ?thesis
        by simp
    next
      case big: False
      show ?thesis
      proof (cases "y < 2 ^ 52 \<and> MIN_ULP < u")
        case True
        with n big "1.prems" have "normalise (n - 1) (y * 2) (u / 2) = (y', u')"
          by (simp add: normalise_up)
        from "1.IH"(2) [OF n big True this] show ?thesis
          by simp
      next
        case False
        from "1.prems" show ?thesis
          unfolding normalise_stop [OF n big False] by simp
      qed
    qed
  qed
qed

lemma normalise_positive:
  "normalise n y u = (y', u') \<Longrightarrow> 0 < u \<Longrightarrow> 0 < u'"
proof (induction n y u rule: normalise.induct)
  case (1 n y u)
  show ?case
  proof (cases "n = 0")
    case True
    with "1.prems" show ?thesis
      by (simp add: normalise_0)
  next
    case n: False
    show ?thesis
    proof (cases "2 ^ 53 \<le> y")
      case True
      with n "1.prems" have "normalise (n - 1) (y / 2) (u * 2) = (y', u')"
        by (simp add: normalise_down)
      from "1.IH"(1) [OF n True this] "1.prems"(2) show ?thesis
        by simp
    next
      case big: False
      show ?thesis
      proof (cases "y < 2 ^ 52 \<and> MIN_ULP < u")
        case True
        with n big "1.prems" have "normalise (n - 1) (y * 2) (u / 2) = (y', u')"
          by (simp add: normalise_up)
        from "1.IH"(2) [OF n big True this] "1.prems"(2) show ?thesis
          by simp
      next
        case False
        from "1.prems" show ?thesis
          unfolding normalise_stop [OF n big False] by simp
      qed
    qed
  qed
qed

lemma normalise_normal:
  assumes "normalise n y u = (y', u')"
    and "0 < u"
    and "y < 2 ^ 53 * 2 ^ n"
    and "2 ^ 52 \<le> y * 2 ^ n"
    and "MIN_NORMAL \<le> y * u"
  shows "2 ^ 52 \<le> y' \<and> y' < 2 ^ 53"
  using assms
proof (induction n y u rule: normalise.induct)
  case (1 n y u)
  show ?case
  proof (cases "n = 0")
    case True
    with "1.prems" show ?thesis
      by (simp add: normalise_0)
  next
    case n: False
    then have pow: "(2::real) ^ n = 2 * 2 ^ (n - 1)"
      by (cases n) simp_all
    have one: "(1::real) \<le> 2 ^ (n - 1)"
      by simp
    show ?thesis
    proof (cases "2 ^ 53 \<le> y")
      case True
      with n "1.prems" have step: "normalise (n - 1) (y / 2) (u * 2) = (y', u')"
        by (simp add: normalise_down)
      have "y / 2 < 2 ^ 53 * 2 ^ (n - 1)"
        using "1.prems"(3) by (simp add: pow)
      moreover have "2 ^ 52 \<le> y / 2 * 2 ^ (n - 1)"
      proof -
        have "(2::real) ^ 52 \<le> y / 2 * 1"
          using True by simp
        also have "\<dots> \<le> y / 2 * 2 ^ (n - 1)"
          using one True by (intro mult_left_mono) simp_all
        finally show ?thesis .
      qed
      moreover have "MIN_NORMAL \<le> y / 2 * (u * 2)"
        using "1.prems"(5) by simp
      ultimately show ?thesis
        using "1.IH"(1) [OF n True step] "1.prems"(2) by simp
    next
      case big: False
      show ?thesis
      proof (cases "y < 2 ^ 52 \<and> MIN_ULP < u")
        case True
        with n big "1.prems" have step: "normalise (n - 1) (y * 2) (u / 2) = (y', u')"
          by (simp add: normalise_up)
        have "y * 2 < 2 ^ 53 * 2 ^ (n - 1)"
        proof -
          have "y * 2 < (2::real) ^ 53 * 1"
            using True by simp
          also have "\<dots> \<le> 2 ^ 53 * 2 ^ (n - 1)"
            using one by (intro mult_left_mono) simp_all
          finally show ?thesis .
        qed
        moreover have "2 ^ 52 \<le> y * 2 * 2 ^ (n - 1)"
          using "1.prems"(4) by (simp add: pow mult.assoc)
        moreover have "MIN_NORMAL \<le> y * 2 * (u / 2)"
          using "1.prems"(5) by simp
        ultimately show ?thesis
          using "1.IH"(2) [OF n big True step] "1.prems"(2) by simp
      next
        case False
        from "1.prems"(1) have same: "y' = y"
          unfolding normalise_stop [OF n big False] by simp
        have "2 ^ 52 \<le> y"
        proof (rule ccontr)
          assume "\<not> 2 ^ 52 \<le> y"
          with False have small: "y < 2 ^ 52" and tiny: "u \<le> MIN_ULP"
            by simp_all
          have "0 < y"
          proof (rule ccontr)
            assume "\<not> 0 < y"
            then have "y * u \<le> 0"
              using "1.prems"(2) by (simp add: mult_le_0_iff)
            moreover have "0 < MIN_NORMAL"
              by (simp add: MIN_NORMAL_def)
            ultimately show False
              using "1.prems"(5) by linarith
          qed
          have "y * u \<le> y * MIN_ULP"
            using tiny \<open>0 < y\<close> by (intro mult_left_mono) simp_all
          also have "\<dots> < 2 ^ 52 * MIN_ULP"
            using small by (intro mult_strict_right_mono) (simp_all add: MIN_ULP_def)
          also have "\<dots> = MIN_NORMAL"
            by (simp add: MIN_ULP_def MIN_NORMAL_def)
          finally show False
            using "1.prems"(5) by simp
        qed
        with big same show ?thesis
          by simp
      qed
    qed
  qed
qed

lemma round_double_error:
  assumes normal: "MIN_NORMAL \<le> \<bar>x\<bar>" and finite: "\<bar>x\<bar> < 2 ^ 1024"
  shows "\<bar>round_double x - x\<bar> \<le> \<bar>x\<bar> / 2 ^ 53"
proof -
  have pos: "0 < \<bar>x\<bar>"
    using normal by (simp add: MIN_NORMAL_def)
  then have nz: "x \<noteq> 0"
    by simp
  obtain y u where norm: "normalise 2200 \<bar>x\<bar> 1 = (y, u)"
    by (cases "normalise 2200 \<bar>x\<bar> 1")
  have prod: "y * u = \<bar>x\<bar>"
    using normalise_product [OF norm] by simp
  have u: "0 < u"
    using normalise_positive [OF norm] by simp
  have "(2::real) ^ 1024 \<le> 2 ^ (53 + 2200)"
    by (rule power_increasing) simp_all
  with finite have upper: "\<bar>x\<bar> < 2 ^ 53 * 2 ^ 2200"
    by (simp only: power_add)
  have "(2::real) ^ 52 \<le> 2 ^ 1178"
    by (rule power_increasing) simp_all
  also have "(2::real) ^ 1178 = MIN_NORMAL * 2 ^ (1022 + 1178)"
    by (simp only: power_add MIN_NORMAL_def) simp
  also have "\<dots> \<le> \<bar>x\<bar> * 2 ^ (1022 + 1178)"
    using normal by (intro mult_right_mono) simp_all
  finally have lower: "2 ^ 52 \<le> \<bar>x\<bar> * 2 ^ 2200"
    by simp
  have y: "2 ^ 52 \<le> y \<and> y < 2 ^ 53"
    using normalise_normal [OF norm _ upper lower] normal by simp
  let ?m = "of_int (round_half_even y) :: real"
  have rd: "round_double x = sgn x * (?m * u)"
    using nz by (simp add: round_double_def norm)
  have "round_double x - x = sgn x * (?m * u) - sgn x * \<bar>x\<bar>"
    by (simp add: rd mult_sgn_abs)
  also have "\<dots> = sgn x * ((?m - y) * u)"
    by (simp add: prod [symmetric] algebra_simps)
  finally have "\<bar>round_double x - x\<bar> = \<bar>?m - y\<bar> * u"
    using nz u by (simp add: abs_mult abs_sgn_eq)
  also have "\<dots> \<le> 1 / 2 * u"
    using round_half_even_close [of y] u by (intro mult_right_mono) simp_all
  also have "u = \<bar>x\<bar> / y"
    using prod y by (simp add: field_simps)
  also have "1 / 2 * (\<bar>x\<bar> / y) \<le> 1 / 2 * (\<bar>x\<bar> / 2 ^ 52)"
    using y pos by (intro mult_left_mono divide_left_mono) simp_all
  finally show ?thesis
    by simp
qed



subsection \<open>Totals and averages\<close>

lemma foldl_count: "foldl (\<lambda>sum day. sum + count day) a bs = a + sum_list (map count bs)"
  by (induction bs arbitrary: a) simp_all

lemma toFixed1_nonneg:
  assumes "0 \<le> x"
  shows "toFixed1 x = (if x \<ge> 10 ^ 21 then x else of_int \<lfloor>x * 10 + 1 / 2\<rfloor> / 10)"
  using assms by (simp add: toFixed1_def Let_def)

lemma round_tenth_close:
  fixes x :: real
  shows "\<bar>of_int \<lfloor>x * 10 + 1 / 2\<rfloor> / 10 - x\<bar> \<le> 1 / 20"
proof -
  define n where "n = \<lfloor>x * 10 + 1 / 2\<rfloor>"
  have lower: "of_int n \<le> x * 10 + 1 / 2"
    unfolding n_def by (rule of_int_floor_le)
  have upper: "x * 10 + 1 / 2 < of_int n + 1"
    unfolding n_def by linarith
  have "of_int n / 10 - x \<le> 1 / 20"
    using lower by linarith
  moreover have "x - of_int n / 10 \<le> 1 / 20"
    using upper by linarith
  ultimately have "\<bar>of_int n / 10 - x\<bar> \<le> 1 / 20"
    by linarith
  then show ?thesis
    by (simp only: n_def)
qed

lemma toFixed1_zero: "toFixed1 0 = 0"
  by (simp add: toFixed1_def)

lemma round_double_zero: "round_double 0 = 0"
  by (simp add: round_double_def)

text \<open>The average in the three steps of the code, for counts and lengths JavaScript has.\<close>

lemma average_steps:
  fixes t l :: nat
  assumes l: "0 < l" "l < 2 ^ 32" and t: "t < 2 ^ 53"
  defines "avg \<equiv> real t / real l"
  defines "q \<equiv> round_double avg"
  defines "n \<equiv> \<lfloor>q * 10 + 1 / 2\<rfloor>"
  shows "\<bar>q - avg\<bar> \<le> avg / 2 ^ 53"
    and "toFixed1 q = of_int n / 10"
    and "\<bar>of_int n / 10 - q\<bar> \<le> 1 / 20"
    and "\<bar>round_double (of_int n / 10) - avg\<bar> \<le> 1 / 20 + (avg + 1) / 2 ^ 52"
proof -
  define e :: real where "e = 1 / 2 ^ 53"
  have e: "0 < e"
    by (simp add: e_def)
  have avg0: "0 \<le> avg"
    by (simp add: avg_def)
  have "avg * real l = real t"
    using l by (simp add: avg_def)
  moreover have "avg * 1 \<le> avg * real l"
    using l avg0 by (intro mult_left_mono) simp_all
  ultimately have "avg \<le> real t"
    by simp
  also have "real t < 2 ^ 53"
    using t by (metis of_nat_less_numeral_power_cancel_iff)
  finally have avg_small: "avg < 2 ^ 53" .
  then have avg_e: "avg * e < 1"
    by (simp add: e_def)
  have q_err: "\<bar>q - avg\<bar> \<le> avg * e"
  proof (cases "t = 0")
    case True
    then show ?thesis
      by (simp add: q_def avg_def round_double_zero)
  next
    case False
    then have "1 \<le> real t"
      by simp
    then have "1 / real l \<le> avg"
      using l by (simp add: avg_def divide_right_mono)
    moreover have "real l < 2 ^ 32"
      using l by (metis of_nat_less_numeral_power_cancel_iff)
    then have "1 / 2 ^ 32 \<le> 1 / real l"
      using l by (intro divide_left_mono) simp_all
    moreover have "MIN_NORMAL \<le> 1 / 2 ^ 32"
      by (simp add: MIN_NORMAL_def)
    ultimately have "MIN_NORMAL \<le> \<bar>avg\<bar>"
      using avg0 by simp
    moreover have "\<bar>avg\<bar> < 2 ^ 1024"
      using avg_small avg0 by simp
    ultimately have "\<bar>round_double avg - avg\<bar> \<le> \<bar>avg\<bar> / 2 ^ 53"
      by (rule round_double_error)
    with avg0 show ?thesis
      by (simp add: q_def e_def)
  qed
  then show "\<bar>q - avg\<bar> \<le> avg / 2 ^ 53"
    by (simp add: e_def)
  have q0: "0 \<le> q"
  proof -
    have "avg * e \<le> avg * 1"
      using avg0 by (intro mult_left_mono) (simp_all add: e_def)
    with q_err show ?thesis
      by linarith
  qed
  have q_small: "q < 10 ^ 21"
  proof -
    have "q \<le> avg + avg * e"
      using q_err by linarith
    also have "\<dots> < 2 ^ 53 + 1"
      using avg_small avg_e by linarith
    also have "\<dots> \<le> (10::real) ^ 21"
      by simp
    finally show ?thesis .
  qed
  show fixed: "toFixed1 q = of_int n / 10"
    using q_small by (simp add: toFixed1_nonneg [OF q0] n_def)
  show close: "\<bar>of_int n / 10 - q\<bar> \<le> 1 / 20"
    unfolding n_def by (rule round_tenth_close)
  define s :: real where "s = of_int n / 10"
  have n0: "0 \<le> n"
    using q0 by (simp add: n_def)
  then have s0: "0 \<le> s"
    by (simp add: s_def)
  have s_q: "\<bar>s - q\<bar> \<le> 1 / 20"
    using close by (simp add: s_def)
  have s_le: "s \<le> avg + 21 / 20"
    using s_q q_err avg_e by linarith
  have s_err: "\<bar>round_double s - s\<bar> \<le> s * e"
  proof (cases "n = 0")
    case True
    then show ?thesis
      by (simp add: s_def round_double_zero)
  next
    case False
    with n0 have "1 \<le> n"
      by simp
    then have "(1::real) \<le> of_int n"
      by simp
    then have "1 / 10 \<le> s"
      by (simp add: s_def)
    moreover have "MIN_NORMAL \<le> 1 / 10"
      by (simp add: MIN_NORMAL_def)
    ultimately have "MIN_NORMAL \<le> \<bar>s\<bar>"
      by simp
    moreover have "\<bar>s\<bar> < 2 ^ 1024"
    proof -
      have "\<bar>s\<bar> \<le> avg + 21 / 20"
        using s_le s0 by simp
      also have "\<dots> < 2 ^ 53 + 21 / 20"
        using avg_small by simp
      also have "\<dots> \<le> (2::real) ^ 1024"
        by simp
      finally show ?thesis .
    qed
    ultimately have "\<bar>round_double s - s\<bar> \<le> \<bar>s\<bar> / 2 ^ 53"
      by (rule round_double_error)
    with s0 show ?thesis
      by (simp add: e_def)
  qed
  have "s * e \<le> (avg + 21 / 20) * e"
    using s_le e by (intro mult_right_mono) simp_all
  then have "s * e \<le> avg * e + 21 / 20 * e"
    by (simp add: algebra_simps)
  with s_err s_q q_err have "\<bar>round_double s - avg\<bar> \<le> 1 / 20 + 2 * (avg * e) + 21 / 20 * e"
    by linarith
  also have "\<dots> \<le> 1 / 20 + 2 * (avg * e) + 2 * e"
    using e by simp
  also have "\<dots> = 1 / 20 + (avg + 1) / 2 ^ 52"
    by (simp add: e_def add_divide_distrib)
  finally show "\<bar>round_double (of_int n / 10) - avg\<bar> \<le> 1 / 20 + (avg + 1) / 2 ^ 52"
    by (simp add: s_def)
qed

text \<open>
  Claim C4, as the code has it. \<open>total\<close> is the sum of the counts. For no buckets,
  \<open>total\<close> and \<open>dailyAverage\<close> are 0: nothing is divided. For a non-empty sequence
  \<open>dailyAverage\<close> is computed in three steps: the double quotient
  \<^verbatim>\<open>total / periodData.length\<close>, its text with one decimal by \<^verbatim>\<open>toFixed(1)\<close>, and the
  double \<^verbatim>\<open>Number\<close> reads from that text. For fewer than \<open>2\<^sup>3\<^sup>2\<close> buckets (the longest
  array) and a total below \<open>2\<^sup>5\<^sup>3\<close>, the text is the multiple of one tenth nearest to
  the double quotient (the upper one of two), at most one twentieth away from it; the
  double quotient is within the relative error \<open>2\<^sup>-\<^sup>5\<^sup>3\<close> of the exact quotient; and
  the result is within \<open>1/20 + (q + 1) / 2\<^sup>5\<^sup>2\<close> of the exact quotient \<open>q\<close>.
\<close>

theorem aggregate_total_and_average:
  "total (aggregate periodData) = sum_list (map count periodData)
   \<and> (periodData = [] \<longrightarrow>
         total (aggregate periodData) = 0 \<and> dailyAverage (aggregate periodData) = 0)
   \<and> (periodData \<noteq> [] \<longrightarrow>
         dailyAverage (aggregate periodData)
           = round_double (toFixed1 (round_double
               (real (total (aggregate periodData)) / real (length periodData)))))
   \<and> (periodData \<noteq> [] \<and> length periodData < 2 ^ 32 \<and> total (aggregate periodData) < 2 ^ 53 \<longrightarrow>
         dailyAverage (aggregate periodData)
           = round_double (of_int \<lfloor>round_double
               (real (total (aggregate periodData)) / real (length periodData)) * 10 + 1 / 2\<rfloor> / 10)
         \<and> \<bar>of_int \<lfloor>round_double
               (real (total (aggregate periodData)) / real (length periodData)) * 10 + 1 / 2\<rfloor> / 10
             - round_double (real (total (aggregate periodData)) / real (length periodData))\<bar>
             \<le> 1 / 20
         \<and> \<bar>round_double (real (total (aggregate periodData)) / real (length periodData))
             - real (total (aggregate periodData)) / real (length periodData)\<bar>
             \<le> real (total (aggregate periodData)) / real (length periodData) / 2 ^ 53
         \<and> \<bar>dailyAverage (aggregate periodData)
             - real (total (aggregate periodData)) / real (length periodData)\<bar>
             \<le> 1 / 20 + (real (total (aggregate periodData)) / real (length periodData) + 1) / 2 ^ 52)"
proof -
  let ?t = "total (aggregate periodData)"
  let ?l = "length periodData"
  let ?avg = "real ?t / real ?l"
  let ?q = "round_double ?avg"
  let ?n = "\<lfloor>?q * 10 + 1 / 2\<rfloor>"
  have t: "?t = sum_list (map count periodData)"
    by (simp add: aggregate_def Let_def foldl_count)
  have e: "periodData = [] \<longrightarrow> ?t = 0 \<and> dailyAverage (aggregate periodData) = 0"
    by (simp add: aggregate_def Let_def)
  have d: "periodData \<noteq> [] \<longrightarrow> dailyAverage (aggregate periodData) = round_double (toFixed1 ?q)"
    by (simp add: aggregate_def Let_def)
  have b: "dailyAverage (aggregate periodData) = round_double (of_int ?n / 10)
      \<and> \<bar>of_int ?n / 10 - ?q\<bar> \<le> 1 / 20
      \<and> \<bar>?q - ?avg\<bar> \<le> ?avg / 2 ^ 53
      \<and> \<bar>dailyAverage (aggregate periodData) - ?avg\<bar> \<le> 1 / 20 + (?avg + 1) / 2 ^ 52"
    if h: "periodData \<noteq> [] \<and> ?l < 2 ^ 32 \<and> ?t < 2 ^ 53"
  proof -
    from h have l: "0 < ?l" "?l < 2 ^ 32" and small: "?t < 2 ^ 53"
      by simp_all
    note steps = average_steps [OF l small]
    from h d have avg: "dailyAverage (aggregate periodData) = round_double (of_int ?n / 10)"
      by (simp add: steps(2))
    from steps(1,3,4) show ?thesis
      unfolding avg by simp
  qed
  from t e d b show ?thesis
    by blast
qed

theorem aggregate_total_and_average_witness:
  "(\<lparr>date = 0, count = 3\<rparr> # replicate 19 \<lparr>date = 0, count = 0\<rparr>) \<noteq> []
   \<and> length (\<lparr>date = 0, count = 3\<rparr> # replicate 19 \<lparr>date = 0, count = 0\<rparr>) < 2 ^ 32
   \<and> total (aggregate (\<lparr>date = 0, count = 3\<rparr> # replicate 19 \<lparr>date = 0, count = 0\<rparr>)) < 2 ^ 53
   \<and> total (aggregate (\<lparr>date = 0, count = 3\<rparr> # replicate 19 \<lparr>date = 0, count = 0\<rparr>)) = 3
   \<and> length (\<lparr>date = 0, count = 3\<rparr> # replicate 19 \<lparr>date = 0, count = 0\<rparr>) = 20
   \<and> round_double (3 / 20) = 5404319552844595 / 36028797018963968
   \<and> dailyAverage (aggregate (\<lparr>date = 0, count = 3\<rparr> # replicate 19 \<lparr>date = 0, count = 0\<rparr>)) = 3602879701896397 / 36028797018963968
   \<and> total (aggregate []) = 0
   \<and> dailyAverage (aggregate []) = 0"
proof -
  let ?bs = "(\<lparr>date = 0, count = 3\<rparr> # replicate 19 \<lparr>date = 0, count = 0\<rparr>)"
  have ne: "?bs \<noteq> []"
    by simp
  have len: "length ?bs = 20"
    by simp
  have short: "length ?bs < 2 ^ 32"
    by simp
  note t0 = aggregate_total_and_average [of ?bs]
  have "sum_list (map count ?bs) = 3"
    by simp
  with t0 have tot: "total (aggregate ?bs) = 3"
    by simp
  have small: "total (aggregate ?bs) < 2 ^ 53"
    unfolding tot by simp
  have quotient: "round_double (3 / 20) = 5404319552844595 / 36028797018963968"
    by (simp add: round_double_def normalise.simps round_half_even_def MIN_ULP_def Let_def)
  have tenth: "round_double (1 / 10) = 3602879701896397 / 36028797018963968"
    by (simp add: round_double_def normalise.simps round_half_even_def MIN_ULP_def Let_def)
  from t0 ne short small
  have "dailyAverage (aggregate ?bs)
      = round_double (of_int \<lfloor>round_double
          (real (total (aggregate ?bs)) / real (length ?bs)) * 10 + 1 / 2\<rfloor> / 10)"
    by blast
  then have avg: "dailyAverage (aggregate ?bs) = 3602879701896397 / 36028797018963968"
    unfolding tot len by (simp add: quotient tenth)
  have empty: "total (aggregate []) = 0" "dailyAverage (aggregate []) = 0"
    using aggregate_total_and_average [of "[]"] by simp_all
  from ne short small tot len quotient avg empty show ?thesis
    by (intro conjI)
qed

text \<open>
  Claim C4 as stated fails: one cigarette in three days gives the double nearest to 0.3,
  which is neither one third nor the double quotient \<^verbatim>\<open>1 / 3\<close>.
\<close>

theorem aggregate_average_counterexample:
  "dailyAverage (aggregate [\<lparr>date = 0, count = 1\<rparr>, \<lparr>date = 86400000, count = 0\<rparr>,
                             \<lparr>date = 172800000, count = 0\<rparr>])
     = 5404319552844595 / 18014398509481984
   \<and> round_double
       (real (total (aggregate [\<lparr>date = 0, count = 1\<rparr>, \<lparr>date = 86400000, count = 0\<rparr>,
                                 \<lparr>date = 172800000, count = 0\<rparr>]))
         / real (length [\<lparr>date = 0, count = 1\<rparr>, \<lparr>date = 86400000, count = 0\<rparr>,
                         \<lparr>date = 172800000, count = 0\<rparr>]))
     = 6004799503160661 / 18014398509481984
   \<and> real (total (aggregate [\<lparr>date = 0, count = 1\<rparr>, \<lparr>date = 86400000, count = 0\<rparr>,
                               \<lparr>date = 172800000, count = 0\<rparr>]))
       / real (length [\<lparr>date = 0, count = 1\<rparr>, \<lparr>date = 86400000, count = 0\<rparr>,
                       \<lparr>date = 172800000, count = 0\<rparr>])
     = 1 / 3
   \<and> dailyAverage (aggregate [\<lparr>date = 0, count = 1\<rparr>, \<lparr>date = 86400000, count = 0\<rparr>,
                               \<lparr>date = 172800000, count = 0\<rparr>])
     \<noteq> real (total (aggregate [\<lparr>date = 0, count = 1\<rparr>, \<lparr>date = 86400000, count = 0\<rparr>,
                                 \<lparr>date = 172800000, count = 0\<rparr>]))
         / real (length [\<lparr>date = 0, count = 1\<rparr>, \<lparr>date = 86400000, count = 0\<rparr>,
                         \<lparr>date = 172800000, count = 0\<rparr>])
   \<and> dailyAverage (aggregate [\<lparr>date = 0, count = 1\<rparr>, \<lparr>date = 86400000, count = 0\<rparr>,
                               \<lparr>date = 172800000, count = 0\<rparr>])
     \<noteq> round_double
         (real (total (aggregate [\<lparr>date = 0, count = 1\<rparr>, \<lparr>date = 86400000, count = 0\<rparr>,
                                   \<lparr>date = 172800000, count = 0\<rparr>]))
           / real (length [\<lparr>date = 0, count = 1\<rparr>, \<lparr>date = 86400000, count = 0\<rparr>,
                           \<lparr>date = 172800000, count = 0\<rparr>]))"
proof -
  let ?bs = "[\<lparr>date = 0, count = 1\<rparr>, \<lparr>date = 86400000, count = 0\<rparr>,
              \<lparr>date = 172800000, count = 0\<rparr>]"
  have third: "round_double (1 / 3) = 6004799503160661 / 18014398509481984"
    by (simp add: round_double_def normalise.simps round_half_even_def MIN_ULP_def Let_def)
  have fixed: "toFixed1 (6004799503160661 / 18014398509481984) = 3 / 10"
    by (simp add: toFixed1_def Let_def)
  have tenths: "round_double (3 / 10) = 5404319552844595 / 18014398509481984"
    by (simp add: round_double_def normalise.simps round_half_even_def MIN_ULP_def Let_def)
  have quotient: "real (total (aggregate ?bs)) / real (length ?bs) = 1 / 3"
    by (simp add: aggregate_def Let_def)
  have average: "dailyAverage (aggregate ?bs) = 5404319552844595 / 18014398509481984"
    by (simp add: aggregate_def Let_def third fixed tenths)
  have rounded: "round_double (real (total (aggregate ?bs)) / real (length ?bs))
      = 6004799503160661 / 18014398509481984"
    unfolding quotient by (rule third)
  have differs: "dailyAverage (aggregate ?bs) \<noteq> real (total (aggregate ?bs)) / real (length ?bs)"
    unfolding quotient average by simp
  have differs': "dailyAverage (aggregate ?bs)
      \<noteq> round_double (real (total (aggregate ?bs)) / real (length ?bs))"
    unfolding rounded average by simp
  from average rounded quotient differs differs' show ?thesis
    by (intro conjI)
qed

subsection \<open>Spending\<close>









section \<open>Properties of \<^verbatim>\<open>getLogsByDay\<close>\<close>

subsection \<open>The two loops\<close>

lemma initDays_done: "days \<le> i \<Longrightarrow> initDays tz today days i result = result"
  by (simp add: initDays.simps)

lemma initDays_step:
  "i < days \<Longrightarrow>
   initDays tz today days i result =
     initDays tz today days (i + 1) (obj_set result (local_day tz (today - i * MS_PER_DAY)) 0)"
  by (subst initDays.simps) simp

lemma set_obj_set_subset: "set (obj_set result k v) \<subseteq> insert (k, v) (set result)"
  by (induction result) (auto split: if_splits)

lemma obj_set_zero: "\<forall>p \<in> set result. snd p = 0 \<Longrightarrow> \<forall>p \<in> set (obj_set result k (0::nat)). snd p = 0"
  using set_obj_set_subset [of result k 0] by fastforce

lemma initDays_zero:
  "\<forall>p \<in> set result. snd p = 0 \<Longrightarrow> \<forall>p \<in> set (initDays tz today days i result). snd p = 0"
proof (induction tz today days i result rule: initDays.induct)
  case (1 tz today days i result)
  show ?case
  proof (cases "i < days")
    case True
    with "1.IH" [OF True obj_set_zero [OF "1.prems"]] show ?thesis
      by (simp add: initDays_step)
  next
    case False
    with "1.prems" show ?thesis
      by (simp add: initDays_done)
  qed
qed

lemma countLogs_invalid:
  "\<exists>l \<in> set logs. timestamp l = None \<Longrightarrow> countLogs tz logs result = Inl RangeError"
  by (induction logs arbitrary: result)
    (auto simp: format_yyyy_MM_dd_def split: option.splits)

lemma countLogs_valid:
  "\<forall>l \<in> set logs. timestamp l \<noteq> None \<Longrightarrow> \<exists>r. countLogs tz logs result = Inr r"
  by (induction logs arbitrary: result)
    (auto simp: format_yyyy_MM_dd_def split: option.splits)

lemma getLogsByDay_resolves: "\<exists>buckets. getLogsByDay tz today env st days = Inr buckets"
  by (simp add: getLogsByDay_def split: sum.splits)

lemma getLogsByDay_no_days:
  assumes "days \<le> 0"
  shows "getLogsByDay tz today env st days = Inr []"
proof -
  obtain logs where logs: "getLogs env st = Inr logs"
    using getLogs_total by blast
  have init: "initDays tz today days 0 [] = []"
    using assms by (simp add: initDays_done)
  have count: "countLogs tz logs [] = Inr [] \<or> countLogs tz logs [] = Inl RangeError"
    by (induction logs) (auto simp: format_yyyy_MM_dd_def split: option.splits)
  then show ?thesis
    by (auto simp: getLogsByDay_def getLogsByDay_try_def logs init)
qed

lemma getLogsByDay_invalid:
  assumes "getLogs env st = Inr logs" and "\<exists>l \<in> set logs. timestamp l = None"
  shows "getLogsByDay tz today env st days = Inr []"
  using assms by (simp add: getLogsByDay_def getLogsByDay_try_def countLogs_invalid)

lemma getLogsByDay_no_logs:
  assumes "getLogs env st = Inr []"
  shows "getLogsByDay tz today env st days =
           Inr (sort_key date (map (\<lambda>(dateKey, c). \<lparr>date = Date_of_dateKey dateKey, count = c\<rparr>)
                  (initDays tz today days 0 [])))"
  using assms by (simp add: getLogsByDay_def getLogsByDay_try_def)

subsection \<open>Totality\<close>

text \<open>
  Claim C6, as the code has it. \<^verbatim>\<open>getLogsByDay\<close> resolves for every time zone, instant,
  read outcome, store and day count. A day count of 0 or less gives the empty sequence;
  an empty collection gives buckets that all have count 0. Nothing makes it signal an
  error: the one failure inside, an entry whose timestamp is not a date, is caught and
  gives the empty sequence too. The computations of the screens are total functions; on
  an empty sequence they give zero statistics, zero counts and no records.
\<close>

theorem aggregation_total:
  "(\<exists>buckets. getLogsByDay tz today env st days = Inr buckets)
   \<and> (days \<le> 0 \<longrightarrow> getLogsByDay tz today env st days = Inr [])
   \<and> (getLogs env st = Inr [] \<longrightarrow>
        (\<exists>buckets. getLogsByDay tz today env st days = Inr buckets
           \<and> (\<forall>b \<in> set buckets. count b = 0)))
   \<and> ((\<exists>logs. getLogs env st = Inr logs \<and> (\<exists>l \<in> set logs. timestamp l = None)) \<longrightarrow>
        getLogsByDay tz today env st days = Inr [])
   \<and> aggregate [] = \<lparr>dailyAverage = 0, total = 0, changeFromLastPeriod = 0\<rparr>
   \<and> updateTimeStats tz [] = \<lparr>morning = 0, afternoon = 0, evening = 0, night = 0\<rparr>
   \<and> spendingData tz [] logsByDay cost = []"
proof (intro conjI impI)
  show "aggregate [] = \<lparr>dailyAverage = 0, total = 0, changeFromLastPeriod = 0\<rparr>"
    by (simp add: aggregate_def)
  show "updateTimeStats tz [] = \<lparr>morning = 0, afternoon = 0, evening = 0, night = 0\<rparr>"
    by (simp add: updateTimeStats_def)
  show "spendingData tz [] logsByDay cost = []"
    by (simp add: spendingData_def)
  show "\<exists>buckets. getLogsByDay tz today env st days = Inr buckets"
    by (rule getLogsByDay_resolves)
  show "getLogsByDay tz today env st days = Inr []" if "days \<le> 0"
    using that by (rule getLogsByDay_no_days)
  show "\<exists>buckets. getLogsByDay tz today env st days = Inr buckets
           \<and> (\<forall>b \<in> set buckets. count b = 0)" if "getLogs env st = Inr []"
  proof -
    have "\<forall>p \<in> set (initDays tz today days 0 []). snd p = 0"
      by (rule initDays_zero) simp
    then have "\<forall>b \<in> set (sort_key date (map (\<lambda>(dateKey, c). \<lparr>date = Date_of_dateKey dateKey, count = c\<rparr>)
                  (initDays tz today days 0 []))). count b = 0"
      by auto
    with getLogsByDay_no_logs [OF that] show ?thesis
      by simp
  qed
  show "getLogsByDay tz today env st days = Inr []"
    if "\<exists>logs. getLogs env st = Inr logs \<and> (\<exists>l \<in> set logs. timestamp l = None)"
    using that getLogsByDay_invalid by blast
qed

theorem aggregation_total_witness:
  "(0::int) \<le> 0
   \<and> getLogsByDay UTC 1718470800000 working
        (storage_with [\<lparr>log_id = ''1'', timestamp = Some 1718470800000\<rparr>]) 0 = Inr []
   \<and> getLogs working empty_storage = Inr []
   \<and> getLogsByDay UTC 1718470800000 working empty_storage 2
       = Inr [\<lparr>date = 1718323200000, count = 0\<rparr>, \<lparr>date = 1718409600000, count = 0\<rparr>]
   \<and> getLogs working (storage_with [\<lparr>log_id = ''1'', timestamp = None\<rparr>])
       = Inr [\<lparr>log_id = ''1'', timestamp = None\<rparr>]
   \<and> timestamp \<lparr>log_id = ''1'', timestamp = None\<rparr> = None
   \<and> getLogsByDay UTC 1718470800000 working
        (storage_with [\<lparr>log_id = ''1'', timestamp = None\<rparr>]) 7 = Inr []"
proof -
  let ?good = "\<lparr>log_id = ''1'', timestamp = Some (1718470800000::int)\<rparr>"
  let ?bad = "\<lparr>log_id = ''1'', timestamp = None :: int option\<rparr>"
  have none: "(0::int) \<le> 0"
    by simp
  have zero: "getLogsByDay UTC 1718470800000 working (storage_with [?good]) 0 = Inr []"
    using aggregation_total [of UTC 1718470800000 working "storage_with [?good]" 0] none
    by blast
  have read: "getLogs working empty_storage = Inr []"
    by (simp add: getLogs_def getItem_def working_def empty_storage_def)
  have two: "getLogsByDay UTC 1718470800000 working empty_storage 2
       = Inr [\<lparr>date = 1718323200000, count = 0\<rparr>, \<lparr>date = 1718409600000, count = 0\<rparr>]"
    using aggregation_total [of UTC 1718470800000 working empty_storage 2] read
    by (simp add: getLogsByDay_def getLogsByDay_try_def initDays.simps UTC_def local_day_def
        MS_PER_DAY_def Date_of_dateKey_def)
  have read_bad: "getLogs working (storage_with [?bad]) = Inr [?bad]"
    by (simp add: getLogs_def getItem_def working_def storage_with_def empty_storage_def)
  have invalid: "timestamp ?bad = None"
    by simp
  have "\<exists>logs. getLogs working (storage_with [?bad]) = Inr logs \<and> (\<exists>l \<in> set logs. timestamp l = None)"
    using read_bad by simp
  then have caught: "getLogsByDay UTC 1718470800000 working (storage_with [?bad]) 7 = Inr []"
    using aggregation_total [of UTC 1718470800000 working "storage_with [?bad]" 7]
    by blast
  from none zero read two read_bad invalid caught show ?thesis
    by (intro conjI)
qed

text \<open>
  Claim C6 as stated fails: a negative day count is answered with the empty sequence, not
  with an error.
\<close>

theorem negative_days_counterexample:
  "getLogsByDay UTC 1718470800000 working empty_storage (- 1) = Inr []"
  by (simp add: getLogsByDay_def getLogsByDay_try_def getLogs_def getItem_def working_def
      empty_storage_def initDays.simps)

subsection \<open>Time zones without clock changes\<close>

lemma obj_set_new: "k \<notin> fst ` set result \<Longrightarrow> obj_set result k v = result @ [(k, v)]"
  by (induction result) auto

lemma obj_set_keys: "k \<in> fst ` set result \<Longrightarrow> map fst (obj_set result k v) = map fst result"
  by (induction result) fastforce+

lemma map_of_keys: "map_of result k = Some c \<Longrightarrow> k \<in> fst ` set result"
  by (induction result) (auto split: if_splits)

lemma obj_set_increment:
  fixes f :: "'k \<Rightarrow> nat"
  assumes "distinct (map fst result)" and "map_of result k' = Some c0"
  shows "map (\<lambda>(k, c). (k, c + f k)) (obj_set result k' (c0 + 1))
       = map (\<lambda>(k, c). (k, c + ((if k = k' then 1 else 0) + f k))) result"
  using assms
proof (induction result)
  case Nil
  then show ?case by simp
next
  case (Cons p ps)
  obtain a b where p: "p = (a, b)"
    by (cases p)
  show ?case
  proof (cases "a = k'")
    case True
    with Cons.prems p have b: "b = c0" and fresh: "\<forall>q \<in> set ps. fst q \<noteq> k'"
      by force+
    from fresh have "map (\<lambda>(k, c). (k, c + f k)) ps
        = map (\<lambda>(k, c). (k, c + ((if k = k' then 1 else 0) + f k))) ps"
      by (intro map_cong) fastforce+
    with True b p show ?thesis
      by simp
  next
    case False
    with Cons.prems p have "distinct (map fst ps)" and "map_of ps k' = Some c0"
      by auto
    from Cons.IH [OF this] False p show ?thesis
      by simp
  qed
qed

text \<open>What the second loop leaves in \<^verbatim>\<open>result\<close>, for any time zone.\<close>

lemma countLogs_counts:
  assumes "distinct (map fst result)" and "\<forall>l \<in> set logs. timestamp l \<noteq> None"
  shows "countLogs tz logs result =
           Inr (map (\<lambda>(k, c). (k, c + length (filter (\<lambda>l. format_yyyy_MM_dd tz (timestamp l) = Inr k) logs)))
                  result)"
  using assms
proof (induction logs arbitrary: result)
  case Nil
  then show ?case by simp
next
  case (Cons l logs)
  from Cons.prems obtain t where t: "timestamp l = Some t"
    by auto
  let ?k' = "local_day tz t"
  let ?cnt = "\<lambda>k. length (filter (\<lambda>l. format_yyyy_MM_dd tz (timestamp l) = Inr k) logs)"
  have fmt: "format_yyyy_MM_dd tz (timestamp l) = Inr ?k'"
    by (simp add: format_yyyy_MM_dd_def t)
  have valid: "\<forall>l \<in> set logs. timestamp l \<noteq> None"
    using Cons.prems by simp
  show ?case
  proof (cases "map_of result ?k'")
    case None
    then have fresh: "\<forall>q \<in> set result. fst q \<noteq> ?k'"
      by (force simp: map_of_eq_None_iff)
    have "countLogs tz (l # logs) result = countLogs tz logs result"
      by (simp add: fmt None)
    also have "\<dots> = Inr (map (\<lambda>(k, c). (k, c + ?cnt k)) result)"
      using Cons.IH [OF Cons.prems(1) valid] .
    also have "map (\<lambda>(k, c). (k, c + ?cnt k)) result
        = map (\<lambda>(k, c). (k, c + length (filter (\<lambda>l. format_yyyy_MM_dd tz (timestamp l) = Inr k) (l # logs))))
            result"
      using fresh by (intro map_cong) (fastforce simp: fmt)+
    finally show ?thesis .
  next
    case (Some c0)
    have keys: "map fst (obj_set result ?k' v) = map fst result" for v
      using map_of_keys [OF Some] by (rule obj_set_keys)
    have "countLogs tz (l # logs) result = countLogs tz logs (obj_set result ?k' (c0 + 1))"
      by (simp add: fmt Some)
    also have "\<dots> = Inr (map (\<lambda>(k, c). (k, c + ?cnt k)) (obj_set result ?k' (c0 + 1)))"
      using Cons.prems(1) valid by (intro Cons.IH) (simp_all add: keys)
    also have "map (\<lambda>(k, c). (k, c + ?cnt k)) (obj_set result ?k' (c0 + 1))
        = map (\<lambda>(k, c). (k, c + ((if k = ?k' then 1 else 0) + ?cnt k))) result"
      using Cons.prems(1) Some by (rule obj_set_increment)
    also have "\<dots> = map (\<lambda>(k, c). (k, c + length (filter (\<lambda>l. format_yyyy_MM_dd tz (timestamp l) = Inr k) (l # logs))))
            result"
      by (intro map_cong) (auto simp: fmt)
    finally show ?thesis .
  qed
qed

text \<open>A time zone without clock changes: stepping back 24 hours is stepping back a day.\<close>

lemma local_day_fixed_offset:
  assumes "\<forall>t. tz t = offset"
  shows "local_day tz (today - i * MS_PER_DAY) = local_day tz today - i"
proof -
  have "today - i * MS_PER_DAY + offset = (today + offset) + (- i) * MS_PER_DAY"
    by simp
  then have "(today - i * MS_PER_DAY + offset) div MS_PER_DAY = (today + offset) div MS_PER_DAY + (- i)"
    by (simp only: div_mult_self1 [of MS_PER_DAY] MS_PER_DAY_def) simp
  with assms show ?thesis
    by (simp add: local_day_def)
qed

lemma initDays_fixed_offset:
  assumes "\<forall>t. tz t = offset"
    and "i = int n"
    and "result = map (\<lambda>j. (local_day tz today - int j, 0)) [0..<n]"
  shows "initDays tz today days i result =
           map (\<lambda>j. (local_day tz today - int j, 0)) [0..<max n (nat days)]"
  using assms
proof (induction tz today days i result arbitrary: n rule: initDays.induct)
  case (1 tz today days i result)
  show ?case
  proof (cases "i < days")
    case True
    have key: "local_day tz (today - i * MS_PER_DAY) = local_day tz today - int n"
      using local_day_fixed_offset [OF "1.prems"(1)] "1.prems"(2) by simp
    have fresh: "local_day tz today - int n \<notin> fst ` set result"
      by (auto simp: "1.prems"(3))
    have "obj_set result (local_day tz today - int n) 0
        = result @ [(local_day tz today - int n, 0)]"
      using fresh by (rule obj_set_new)
    then have next_result: "obj_set result (local_day tz (today - i * MS_PER_DAY)) 0
        = map (\<lambda>j. (local_day tz today - int j, 0)) [0..<Suc n]"
      unfolding key by (simp add: "1.prems"(3))
    have "initDays tz today days i result
        = initDays tz today days (i + 1) (obj_set result (local_day tz (today - i * MS_PER_DAY)) 0)"
      using True by (rule initDays_step)
    also have "\<dots> = map (\<lambda>j. (local_day tz today - int j, 0)) [0..<max (Suc n) (nat days)]"
      using "1.prems"(1,2) by (intro "1.IH" [OF True _ _ next_result]) simp_all
    also have "max (Suc n) (nat days) = max n (nat days)"
      using True "1.prems"(2) by simp
    finally show ?thesis .
  next
    case False
    then have "max n (nat days) = n"
      using "1.prems"(2) by simp
    with False "1.prems"(3) show ?thesis
      by (simp add: initDays_done)
  qed
qed

lemma insort_key_last:
  "\<forall>y \<in> set ys. f y < f x \<Longrightarrow> insort_key f x ys = ys @ [x]"
  by (induction ys) auto

lemma sort_key_descending:
  "sorted_wrt (\<lambda>a b. f b < f a) xs \<Longrightarrow> sort_key f xs = rev xs"
proof (induction xs)
  case Nil
  show ?case by simp
next
  case (Cons x xs)
  then have "sort_key f xs = rev xs" and "\<forall>y \<in> set (rev xs). f y < f x"
    by simp_all
  then show ?case
    by (simp add: sort_key_def insort_key_last)
qed

lemma rev_days_back: "rev (map (\<lambda>j. d - int j) [0..<n]) = [d - int n + 1..d]"
proof (induction n)
  case 0
  show ?case by simp
next
  case (Suc n)
  have "rev (map (\<lambda>j. d - int j) [0..<Suc n]) = (d - int n) # rev (map (\<lambda>j. d - int j) [0..<n])"
    by simp
  also have "\<dots> = (d - int n) # [d - int n + 1..d]"
    by (simp only: Suc.IH)
  also have "\<dots> = [d - int n..d]"
    by (rule upto_rec1 [symmetric]) simp
  finally show ?case
    by simp
qed

text \<open>
  Where the offset of local time never changes and every timestamp is a date,
  \<^verbatim>\<open>getLogsByDay\<close> returns one bucket for each of the \<open>days\<close> calendar days up to today,
  oldest first, dated midnight UTC of that day, and counting the entries of that local day.
\<close>

lemma getLogsByDay_fixed_offset:
  assumes tz: "\<forall>t. tz t = offset"
    and logs: "getLogs env st = Inr logs"
    and valid: "\<forall>l \<in> set logs. timestamp l \<noteq> None"
  shows "getLogsByDay tz today env st days =
           Inr (map (\<lambda>k. \<lparr>date = k * MS_PER_DAY,
                          count = length (filter (\<lambda>l. format_yyyy_MM_dd tz (timestamp l) = Inr k) logs)\<rparr>)
                  [local_day tz today - days + 1..local_day tz today])"
proof -
  let ?d = "local_day tz today"
  let ?n = "nat days"
  let ?cnt = "\<lambda>k. length (filter (\<lambda>l. format_yyyy_MM_dd tz (timestamp l) = Inr k) logs)"
  let ?bucket = "\<lambda>k. \<lparr>date = k * MS_PER_DAY, count = ?cnt k\<rparr>"
  let ?keys = "map (\<lambda>j. ?d - int j) [0..<?n]"
  have init: "initDays tz today days 0 [] = map (\<lambda>k. (k, 0)) ?keys"
    using initDays_fixed_offset [OF tz, of 0 0 "[]" today days] by (simp add: comp_def)
  have "distinct ?keys"
    by (simp add: distinct_map inj_on_def)
  then have "distinct (map fst (map (\<lambda>k. (k, 0::nat)) ?keys))"
    by (simp add: comp_def)
  from countLogs_counts [OF this valid, of tz]
  have counted: "countLogs tz logs (initDays tz today days 0 []) = Inr (map (\<lambda>k. (k, ?cnt k)) ?keys)"
    by (simp add: init comp_def)
  have buckets: "map (\<lambda>(dateKey, c). \<lparr>date = Date_of_dateKey dateKey, count = c\<rparr>)
      (map (\<lambda>k. (k, ?cnt k)) ?keys) = map ?bucket ?keys"
    by (simp add: comp_def Date_of_dateKey_def)
  have "sorted_wrt (\<lambda>a b. date b < date a) (map ?bucket ?keys)"
    by (simp add: sorted_wrt_map sorted_wrt_iff_nth_less MS_PER_DAY_def)
  then have "sort_key date (map ?bucket ?keys) = rev (map ?bucket ?keys)"
    by (rule sort_key_descending)
  also have "\<dots> = map ?bucket (rev ?keys)"
    by (rule rev_map)
  also have "rev ?keys = [?d - int ?n + 1..?d]"
    by (rule rev_days_back)
  also have "[?d - int ?n + 1..?d] = [?d - days + 1..?d]"
    by (cases "0 \<le> days") simp_all
  finally have sorted: "sort_key date (map ?bucket ?keys) = map ?bucket [?d - days + 1..?d]" .
  show ?thesis
    by (simp only: getLogsByDay_def getLogsByDay_try_def logs counted buckets sorted sum.case)
qed

lemma length_filter_disjoint:
  "\<forall>x. \<not> (P x \<and> Q x) \<Longrightarrow>
   length (filter P xs) + length (filter Q xs) = length (filter (\<lambda>x. P x \<or> Q x) xs)"
  by (induction xs) auto

lemma count_by_key:
  "distinct ks \<Longrightarrow>
   sum_list (map (\<lambda>k. length (filter (\<lambda>l. g l = k) logs)) ks)
     = length (filter (\<lambda>l. g l \<in> set ks) logs)"
proof (induction ks)
  case Nil
  show ?case by simp
next
  case (Cons k ks)
  then have "\<forall>l. \<not> (g l = k \<and> g l \<in> set ks)"
    by auto
  from length_filter_disjoint [OF this, of logs] Cons show ?case
    by simp
qed

text \<open>
  The date of a bucket read on the device's clock, as the screens do with
  \<^verbatim>\<open>toDateString()\<close>: the day of the key east of Greenwich, the day before it west.
\<close>

lemma toDateString_of_dateKey:
  assumes "\<forall>t. tz t = offset"
  shows "toDateString tz (Date_of_dateKey k) = k + offset div MS_PER_DAY"
proof -
  have "(offset + k * MS_PER_DAY) div MS_PER_DAY = offset div MS_PER_DAY + k"
    by (simp only: div_mult_self1 [of MS_PER_DAY] MS_PER_DAY_def) simp
  with assms show ?thesis
    by (simp add: toDateString_def local_day_def Date_of_dateKey_def add.commute)
qed

text \<open>
  So there the window is as claims C1 and C2 describe it: \<open>days\<close> buckets, dated day by
  day up to today, whose counts add up to the number of entries of those days.
\<close>

lemma getLogsByDay_fixed_offset_window:
  assumes tz: "\<forall>t. tz t = offset"
    and logs: "getLogs env st = Inr logs"
    and valid: "\<forall>l \<in> set logs. timestamp l \<noteq> None"
    and days: "0 \<le> days"
  shows "\<exists>buckets. getLogsByDay tz today env st days = Inr buckets
           \<and> length buckets = nat days
           \<and> map date buckets = map Date_of_dateKey [local_day tz today - days + 1..local_day tz today]
           \<and> (0 < days \<longrightarrow> date (last buckets) = Date_of_dateKey (local_day tz today))
           \<and> sum_list (map count buckets)
               = length (filter (\<lambda>l. format_yyyy_MM_dd tz (timestamp l)
                                      \<in> Inr ` {local_day tz today - days + 1..local_day tz today}) logs)"
proof -
  let ?d = "local_day tz today"
  let ?g = "\<lambda>l. format_yyyy_MM_dd tz (timestamp l)"
  let ?bucket = "\<lambda>k. \<lparr>date = k * MS_PER_DAY, count = length (filter (\<lambda>l. ?g l = Inr k) logs)\<rparr>"
  let ?buckets = "map ?bucket [?d - days + 1..?d]"
  have result: "getLogsByDay tz today env st days = Inr ?buckets"
    by (rule getLogsByDay_fixed_offset [OF tz logs valid])
  have len: "length ?buckets = nat days"
    by simp
  have dates: "map date ?buckets = map Date_of_dateKey [?d - days + 1..?d]"
    by (simp add: comp_def Date_of_dateKey_def)
  have newest: "0 < days \<longrightarrow> date (last ?buckets) = Date_of_dateKey ?d"
  proof
    assume "0 < days"
    then have "[?d - days + 1..?d] = [?d - days + 1..?d - 1] @ [?d]"
      by (intro upto_rec2) simp
    then show "date (last ?buckets) = Date_of_dateKey ?d"
      by (simp add: Date_of_dateKey_def)
  qed
  have "sum_list (map count ?buckets)
      = sum_list (map (\<lambda>k. length (filter (\<lambda>l. ?g l = k) logs)) (map Inr [?d - days + 1..?d]))"
    by (simp add: comp_def)
  also have "\<dots> = length (filter (\<lambda>l. ?g l \<in> set (map Inr [?d - days + 1..?d])) logs)"
    by (rule count_by_key) (simp add: distinct_map)
  finally have total: "sum_list (map count ?buckets)
      = length (filter (\<lambda>l. ?g l \<in> Inr ` {?d - days + 1..?d}) logs)"
    by simp
  from result len dates newest total show ?thesis
    by blast
qed

subsection \<open>Clock changes and western time zones\<close>

text \<open>
  Claim C1 at two inputs the code can receive. In Berlin at 23:30 on 2024-10-28, the day
  after the clocks went back, a window of 3 days gets 2 buckets: 24 and 48 hours before
  that instant are both on 2024-10-27, a day of 25 hours. In Bogota at 12:00 on
  2024-06-15 the bucket of today carries midnight UTC of 2024-06-15 as its date, which on
  the device's clock is 19:00 on 2024-06-14 (day 19888, today being day 19889).
\<close>

theorem lost_day_failing_input:
  "getLogsByDay Europe_Berlin 1730154600000 working empty_storage 3
     = Inr [\<lparr>date = 1729987200000, count = 0\<rparr>, \<lparr>date = 1730073600000, count = 0\<rparr>]
   \<and> getLogsByDay America_Bogota 1718470800000 working empty_storage 1
     = Inr [\<lparr>date = 1718409600000, count = 0\<rparr>]
   \<and> toDateString America_Bogota 1718409600000 = 19888
   \<and> toDateString America_Bogota 1718470800000 = 19889"
  by (simp add: getLogsByDay_def getLogsByDay_try_def getLogs_def getItem_def working_def
      empty_storage_def initDays.simps Europe_Berlin_def America_Bogota_def local_day_def
      toDateString_def MS_PER_DAY_def Date_of_dateKey_def)

text \<open>
  Claim C2 at an input the code can receive. In Berlin at 00:30 on 2024-04-01, the day
  after the clocks went forward, 24 hours earlier is 23:30 on 2024-03-30: the window of 2
  days gets buckets for 2024-03-30 and 2024-04-01, and an entry of noon on 2024-03-31
  (day 19813, today being day 19814) is not counted.
\<close>

theorem skipped_day_failing_input:
  "getLogsByDay Europe_Berlin 1711924200000 working
     (storage_with [\<lparr>log_id = ''1711879200000'', timestamp = Some 1711879200000\<rparr>]) 2
     = Inr [\<lparr>date = 1711756800000, count = 0\<rparr>, \<lparr>date = 1711929600000, count = 0\<rparr>]
   \<and> local_day Europe_Berlin 1711924200000 = 19814
   \<and> local_day Europe_Berlin 1711879200000 = 19813"
  by (simp add: getLogsByDay_def getLogsByDay_try_def getLogs_def getItem_def working_def
      storage_with_def empty_storage_def initDays.simps Europe_Berlin_def local_day_def
      format_yyyy_MM_dd_def MS_PER_DAY_def Date_of_dateKey_def)

end
